theory Spec2Isabelle
  imports Main "HOL-Library.AList" "HOL-Library.Char_ord" "HOL-Library.List_Lexorder"
begin

section \<open>JavaScript objects, sets and strings\<close>

text \<open>
  A JavaScript object used as a dictionary (\<^verbatim>\<open>Record<string, T>\<close>) is an association list:
  every key occurs once, in insertion order. \<^verbatim>\<open>obj[k]\<close> is \<open>js_get\<close>, where \<open>None\<close> stands
  for \<^verbatim>\<open>undefined\<close>. (Keys that look like array indices, which JavaScript enumerates first,
  are not distinguished: the ids of this program are not numerals.)
\<close>

type_synonym 'a js_object = "(string \<times> 'a) list"

definition js_keys :: "'a js_object \<Rightarrow> string list" where
  "js_keys obj = map fst obj"

definition js_get :: "'a js_object \<Rightarrow> string \<Rightarrow> 'a option" where
  "js_get obj k = map_of obj k"

text \<open>\<^verbatim>\<open>{...obj, ...src}\<close>: every entry of \<open>src\<close> is assigned in turn; a key that is already
  there keeps its place and takes the new value.\<close>

definition js_assign :: "'a js_object \<Rightarrow> (string \<times> 'a) list \<Rightarrow> 'a js_object" where
  "js_assign obj src = foldl (\<lambda>acc (k, v). AList.update k v acc) obj src"

definition fromEntries :: "(string \<times> 'a) list \<Rightarrow> 'a js_object" where
  "fromEntries entries = js_assign [] entries"

text \<open>A \<^verbatim>\<open>Set\<close> is the list of its elements in insertion order. \<open>difference\<close> and
  \<open>intersection\<close> are \<^verbatim>\<open>Set.prototype.difference\<close> and \<^verbatim>\<open>Set.prototype.intersection\<close>;
  the latter walks the smaller of the two sets.\<close>

definition new_Set :: "'a list \<Rightarrow> 'a list" where
  "new_Set xs = foldl (\<lambda>s x. if x \<in> set s then s else s @ [x]) [] xs"

definition difference :: "'a list \<Rightarrow> 'a list \<Rightarrow> 'a list" where
  "difference this other = filter (\<lambda>x. x \<notin> set other) this"

definition intersection :: "'a list \<Rightarrow> 'a list \<Rightarrow> 'a list" where
  "intersection this other =
     (if length this \<le> length other then filter (\<lambda>x. x \<in> set other) this
      else filter (\<lambda>x. x \<in> set this) other)"

section \<open>The consistency library\<close>

subsection \<open>Envelopes and the per-field merge\<close>

text \<open>
  \<^verbatim>\<open>WithLWWConsistency<T, U>\<close>: a record \<open>T\<close> with an \<^verbatim>\<open>id\<close>, the other keys named in the
  ignore list \<open>U\<close> (\<open>immutable\<close>), and every remaining key \<open>k\<close> together with its value \<open>T[k]\<close>
  and its entry \<^verbatim>\<open>consistency[k]\<close> (\<open>tracked\<close>). The type gives every key that is not
  ignored a consistency entry, so the two are kept side by side.
\<close>

record 'v FieldMeta =
  count :: nat
  peer :: string
  history :: "('v \<times> string) list"

record 'v Envelope =
  id' :: string
  immutable :: "(string \<times> 'v) list"
  tracked :: "(string \<times> 'v \<times> 'v FieldMeta) list"

record 'v LWWMergeResult =
  lww_resolved :: "'v Envelope option"
  changed :: "string list"
  rejected :: "string list"

datatype winner = Local | Remote

text \<open>
  Modelled from the spec: the source of \<^verbatim>\<open>mergeLWW\<close> (\<^verbatim>\<open>lib/consistency/lww.ts\<close>) is not
  among the files; only its tests and its caller \<^verbatim>\<open>mergeMap\<close> are. \<open>select\<close> is the
  per-key choice of section 4.1, steps 1 to 4, for the local and the remote value of one
  key with their field metadata; it returns the winner and whether the key is added to
  \<^verbatim>\<open>changed\<close> and to \<^verbatim>\<open>rejected\<close>. On a tie of the counts with different values the larger
  peer id wins; two equal peer ids leave the local side in place. (The tests
  \<^verbatim>\<open>local update handled\<close> and \<^verbatim>\<open>remote update handled\<close> of \<^verbatim>\<open>mergeMap\<close> expect a key with
  the larger local count among the rejected ones also when the remote history is empty;
  the definition keeps to the wording of section 4.1. Nothing proved below about
  \<^verbatim>\<open>mergeMap\<close> depends on how \<^verbatim>\<open>rejected\<close> is filled.)
\<close>

definition select :: "'v \<times> 'v FieldMeta \<Rightarrow> 'v \<times> 'v FieldMeta \<Rightarrow> winner \<times> bool \<times> bool" where
  "select l r =
     (let lc = count (snd l); rc = count (snd r) in
      if lc > rc then
        (Local, False, rc \<ge> 0 \<and> (\<exists>h \<in> set (history (snd r)). h \<notin> set (history (snd l))))
      else if lc < rc then (Remote, True, False)
      else if fst l = fst r then (Local, False, False)
      else if peer (snd l) < peer (snd r) then (Remote, True, False)
      else (Local, False, True))"

text \<open>
  Modelled from the spec: one tracked key of the local envelope merged with the remote
  envelope. A key named in \<open>ignore\<close> takes no part in the merge; a key the remote envelope
  does not carry is kept as the null rule keeps a whole envelope (nothing changed, nothing
  rejected).
\<close>

definition merge_key ::
  "string list \<Rightarrow> 'v Envelope \<Rightarrow> string \<times> 'v \<times> 'v FieldMeta
     \<Rightarrow> (string \<times> 'v \<times> 'v FieldMeta) \<times> bool \<times> bool" where
  "merge_key ignore remote entry =
     (case entry of (k, l) \<Rightarrow>
        if k \<in> set ignore then (entry, False, False)
        else (case map_of (tracked remote) k of
                None \<Rightarrow> (entry, False, False)
              | Some r \<Rightarrow>
                  (case select l r of
                     (Local, c, rj) \<Rightarrow> ((k, l), c, rj)
                   | (Remote, c, rj) \<Rightarrow> ((k, r), c, rj))))"

text \<open>Modelled from the spec: \<^verbatim>\<open>keys_of(y)\<close> of the null rules of section 4.1, the keys of
  an envelope that take part in the merge.\<close>

definition keys_of :: "string list \<Rightarrow> 'v Envelope \<Rightarrow> string list" where
  "keys_of ignore y = filter (\<lambda>k. k \<notin> set ignore) (map fst (tracked y))"

text \<open>
  Modelled from the spec: \<^verbatim>\<open>mergeLWW({local, remote, ignore})\<close> of section 4.1 with its
  null rules. The immutable keys (the id among them) are copied from the local side when
  both sides are there.
\<close>

definition mergeLWW ::
  "string list \<Rightarrow> 'v Envelope option \<Rightarrow> 'v Envelope option \<Rightarrow> 'v LWWMergeResult" where
  "mergeLWW ignore local remote =
     (case (local, remote) of
        (None, None) \<Rightarrow> \<lparr>lww_resolved = None, changed = [], rejected = []\<rparr>
      | (Some x, None) \<Rightarrow> \<lparr>lww_resolved = Some x, changed = [], rejected = []\<rparr>
      | (None, Some y) \<Rightarrow> \<lparr>lww_resolved = Some y, changed = keys_of ignore y, rejected = []\<rparr>
      | (Some x, Some y) \<Rightarrow>
          (let merged = map (merge_key ignore y) (tracked x) in
           \<lparr>lww_resolved = Some (x\<lparr>tracked := map fst merged\<rparr>),
            changed = map (fst \<circ> fst) (filter (\<lambda>m. fst (snd m)) merged),
            rejected = map (fst \<circ> fst) (filter (\<lambda>m. snd (snd m)) merged)\<rparr>))"

text \<open>The entry of a tracked key, its value with its field metadata, and the entry that
  \<open>select\<close> keeps of a local and a remote one.\<close>

definition entry :: "'v Envelope \<Rightarrow> string \<Rightarrow> ('v \<times> 'v FieldMeta) option" where
  "entry e k = map_of (tracked e) k"


text \<open>
  Two entries of one key are the same edit when they hold the same value at the same
  count, whoever wrote it; they are contested when one peer wrote two different values at
  the same count, so that neither the counts nor the peer ids tell them apart.
\<close>

definition same_edit :: "'v \<times> 'v FieldMeta \<Rightarrow> 'v \<times> 'v FieldMeta \<Rightarrow> bool" where
  "same_edit l r \<longleftrightarrow> fst l = fst r \<and> count (snd l) = count (snd r)"

definition contested :: "'v \<times> 'v FieldMeta \<Rightarrow> 'v \<times> 'v FieldMeta \<Rightarrow> bool" where
  "contested l r \<longleftrightarrow>
     fst l \<noteq> fst r \<and> count (snd l) = count (snd r) \<and> peer (snd l) = peer (snd r)"


text \<open>
  What the envelope \<open>p\<close> resolved from the local \<open>x\<close> and the remote \<open>y\<close> and the envelope
  \<open>q\<close> resolved from the local \<open>y\<close> and the remote \<open>x\<close> have in common: the id, the immutable
  properties, and the entry of every key, except that on a key where \<open>x\<close> and \<open>y\<close> hold the
  same edit each of \<open>p\<close> and \<open>q\<close> has the entry of its local side (the same value and count,
  with the peer and the history of that side).
\<close>

definition agree :: "'v Envelope \<Rightarrow> 'v Envelope \<Rightarrow> 'v Envelope \<Rightarrow> 'v Envelope \<Rightarrow> bool" where
  "agree x y p q \<longleftrightarrow>
     id' p = id' q \<and> set (immutable p) = set (immutable q) \<and>
     (\<forall>k. entry p k = entry q k \<or>
          (rel_option same_edit (entry x k) (entry y k) \<and>
           entry p k = entry x k \<and> entry q k = entry y k))"

subsection \<open>The grow-only set\<close>

record GrowSetMergeResult =
  gs_resolved :: "string list"
  localOnly :: "string list"
  remoteOnly :: "string list"

text \<open>
  Modelled from the spec: the source of \<^verbatim>\<open>mergeGrowSet\<close> (\<^verbatim>\<open>lib/consistency/gset.ts\<close>) is
  not among the files. Section 4.2 makes \<^verbatim>\<open>resolved\<close> the union; the test
  \<^verbatim>\<open>deleted values merged\<close> lists the local ids first. The two other fields are named as
  \<^verbatim>\<open>mergeMap\<close> and its tests use them: \<^verbatim>\<open>remoteOnly\<close>, which \<^verbatim>\<open>mergeMap\<close> returns as
  \<^verbatim>\<open>local.deleted\<close>, holds the ids that only the remote side has, and \<^verbatim>\<open>localOnly\<close> the ids
  that only the local side has. (Section 4.2 swaps the two names and section 4.3 swaps
  their use, which gives the same \<^verbatim>\<open>local.deleted\<close> and \<^verbatim>\<open>remote.deleted\<close>.)
\<close>

definition mergeGrowSet :: "string list \<Rightarrow> string list \<Rightarrow> GrowSetMergeResult" where
  "mergeGrowSet local remote =
     \<lparr>gs_resolved = new_Set (local @ remote),
      localOnly = difference (new_Set local) (new_Set remote),
      remoteOnly = difference (new_Set remote) (new_Set local)\<rparr>"

subsection \<open>The consistent map: \<^verbatim>\<open>mergeMap\<close>\<close>

record 'v ConsistentMap =
  deleted :: "string list"
  values' :: "'v Envelope js_object"

record IdLists =
  deleted_ids :: "string list"
  values_ids :: "string list"

record 'v ConsistentMapMergeResult =
  resolved :: "'v ConsistentMap"
  local :: IdLists
  remote :: IdLists

datatype error = TypeError | RangeError

text \<open>\<^verbatim>\<open>[id, obj[id]]\<close> for each id of a list, as \<^verbatim>\<open>ids.map((id) => [id, obj[id]])\<close> builds
  them; the ids are keys of \<open>obj\<close>, so the value is there.\<close>

definition entries_of :: "'a js_object \<Rightarrow> string list \<Rightarrow> (string \<times> 'a) list" where
  "entries_of obj ids = List.map_filter (\<lambda>k. map_option (Pair k) (js_get obj k)) ids"

text \<open>\<^verbatim>\<open>results.map((result) => result.resolved!.id)\<close> and
  \<^verbatim>\<open>results.map((result) => [result.resolved!.id, result.resolved!])\<close>; \<open>mergeMap\<close> below
  reads them only when every \<^verbatim>\<open>resolved\<close> is there.\<close>

definition resolved_ids :: "'v LWWMergeResult list \<Rightarrow> string list" where
  "resolved_ids results = List.map_filter (\<lambda>result. map_option id' (lww_resolved result)) results"

definition resolved_entries :: "'v LWWMergeResult list \<Rightarrow> (string \<times> 'v Envelope) list" where
  "resolved_entries results =
     List.map_filter (\<lambda>result. map_option (\<lambda>e. (id' e, e)) (lww_resolved result)) results"

text \<open>
  \<^verbatim>\<open>mergeMap\<close>, lib/consistency/map.ts. Reading \<^verbatim>\<open>.id\<close> of a \<^verbatim>\<open>resolved\<close> that is
  \<^verbatim>\<open>null\<close> throws a \<^verbatim>\<open>TypeError\<close>.
\<close>

definition mergeMap ::
  "'v ConsistentMap \<Rightarrow> 'v ConsistentMap \<Rightarrow> string list \<Rightarrow> error + 'v ConsistentMapMergeResult" where
  "mergeMap local_map remote_map ignore =
     (let localIds = new_Set (js_keys (values' local_map));
          remoteIds = new_Set (js_keys (values' remote_map));
          localOnlyIds = difference localIds remoteIds;
          remoteOnlyIds = difference remoteIds localIds;
          sharedIds = intersection localIds remoteIds;
          mergeResults = map (\<lambda>i. mergeLWW ignore (js_get (values' local_map) i)
                                       (js_get (values' remote_map) i)) sharedIds;
          notifyRemote = filter (\<lambda>result. length (rejected result) > 0) mergeResults;
          updateLocal = filter (\<lambda>result. length (changed result) > 0) mergeResults;
          deleted_set = mergeGrowSet (deleted local_map) (deleted remote_map);
          localOnlyValues = fromEntries (entries_of (values' local_map) localOnlyIds);
          remoteOnlyValues = fromEntries (entries_of (values' remote_map) remoteOnlyIds)
      in if \<exists>result \<in> set mergeResults. lww_resolved result = None then Inl TypeError
         else
           (let sharedValues = fromEntries (resolved_entries mergeResults) in
            Inr \<lparr>resolved =
                   \<lparr>deleted = gs_resolved deleted_set,
                    values' = js_assign (js_assign localOnlyValues remoteOnlyValues) sharedValues\<rparr>,
                 local =
                   \<lparr>deleted_ids = remoteOnly deleted_set,
                    values_ids = remoteOnlyIds @ resolved_ids updateLocal\<rparr>,
                 remote =
                   \<lparr>deleted_ids = localOnly deleted_set,
                    values_ids = localOnlyIds @ resolved_ids notifyRemote\<rparr>\<rparr>))"

text \<open>
  A pair of maps of the type \<^verbatim>\<open>ConsistentMap<T, U>\<close>: an object has each key once, and
  every envelope is stored under its own id.
\<close>

definition consistent :: "'v ConsistentMap \<Rightarrow> bool" where
  "consistent m \<longleftrightarrow>
     distinct (js_keys (values' m)) \<and> (\<forall>(k, e) \<in> set (values' m). id' e = k)"

section \<open>The sync server: \<^verbatim>\<open>worker/sync/src/incidents.ts\<close>\<close>

subsection \<open>Data\<close>

datatype SkillsType = programming | driver

datatype IncidentMatch =
    Match (division: nat) (name: string) (match_id: nat)
  | Skills (skillsType: SkillsType) (attempt: nat)

datatype WebSocketSender = ClientSender string string | ServerSender

text \<open>The entries of a revision history, the scratchpads of a match and the rows of the
  invitation list are carried by the server and never looked into.\<close>

typedecl RevisionEntry
typedecl MatchScratchpad
typedecl InvitationListItem

record 'h Revision =
  rev_count :: int
  rev_user :: WebSocketSender
  rev_history :: "'h list"

record Incident =
  incident_id :: string
  time :: string
  event :: string
  team :: string
  match :: "IncidentMatch option"
  outcome :: string
  rules :: "string list"
  notes' :: string
  revision :: "RevisionEntry Revision option"

record ShareUser =
  user_name :: string
  user_id :: string

record EventIncidentsData =
  data_sku :: string
  data_incidents :: "Incident list"
  data_deleted :: "string list"

datatype WebSocketMessage =
    add_incident Incident
  | update_incident Incident
  | remove_incident string
  | scratchpad_update string MatchScratchpad
  | message string
  | server_share_info "ShareUser list" "InvitationListItem list" EventIncidentsData
      "(string \<times> MatchScratchpad) list"
  | server_user_add ShareUser "InvitationListItem list" "ShareUser list"
  | server_user_remove ShareUser "InvitationListItem list" "ShareUser list"

text \<open>What a socket is sent: a payload (a message with its sender; the date stamp of
  \<^verbatim>\<open>createPayload\<close> is the wall clock and is left out) or the \<^verbatim>\<open>{error}\<close> object of the
  message handler's \<^verbatim>\<open>catch\<close>.\<close>

datatype Frame = Payload WebSocketMessage WebSocketSender | ErrorFrame

text \<open>A session. A \<^verbatim>\<open>WebSocket\<close> is known by a number; the \<^verbatim>\<open>active\<close> flag of the session
  object, which the handlers of a socket keep reading after the object has left the list
  \<^verbatim>\<open>this.clients\<close>, is kept in the state under the socket (\<open>inactive\<close>).\<close>

record SessionClient =
  user :: ShareUser
  socket :: nat
  ip :: string

text \<open>
  The durable object. The storage keys \<^verbatim>\<open>sku\<close>, \<^verbatim>\<open>instance_secret\<close>, \<^verbatim>\<open>incidents\<close>,
  \<^verbatim>\<open>deleted_incidents\<close> and \<^verbatim>\<open>scratchpads\<close>, the incidents under their ids (\<open>stored\<close>) and
  the scratchpads under their keys \<^verbatim>\<open>scratchpad_<id>\<close> (\<open>scratchpad_of\<close>) are separate
  fields: an incident id is taken to be neither a fixed key nor the key of a scratchpad.
  A list that is read with \<^verbatim>\<open>?? []\<close> is empty when absent. \<open>broken\<close> are the sockets whose
  \<^verbatim>\<open>send\<close> throws and \<open>invitation_list\<close> is what \<^verbatim>\<open>getInvitationList\<close> reads from the
  key-value namespace: both belong to the environment, no handler writes them. \<open>outbox\<close>
  records every frame sent, \<open>closed\<close> every socket the server closed.
\<close>

record ServerState =
  sku :: "string option"
  instance_secret :: "string option"
  stored :: "string \<rightharpoonup> Incident"
  incidents :: "string list"
  deleted_incidents :: "string list"
  scratchpads :: "string list"
  scratchpad_of :: "string \<rightharpoonup> MatchScratchpad"
  clients :: "SessionClient list"
  inactive :: "nat list"
  broken :: "nat list"
  invitation_list :: "InvitationListItem list"
  outbox :: "(nat \<times> Frame) list"
  closed :: "nat list"

datatype ResponseData =
    incident_data Incident
  | revision_data "RevisionEntry Revision option"
  | empty_data
  | list_data "Incident list"
  | message_data WebSocketMessage

datatype Response = success ResponseData | failure string string

record Request =
  user_name_header :: "string option"
  user_key_header :: "string option"
  content :: "Incident option"
  id_param :: "string option"

subsection \<open>Storage\<close>

definition setSKU :: "string \<Rightarrow> ServerState \<Rightarrow> ServerState" where
  "setSKU x s = s\<lparr>sku := Some x\<rparr>"

definition getSKU :: "ServerState \<Rightarrow> string option" where
  "getSKU s = sku s"

definition setInstanceSecret :: "string \<Rightarrow> ServerState \<Rightarrow> ServerState" where
  "setInstanceSecret secret s = s\<lparr>instance_secret := Some secret\<rparr>"

text \<open>\<^verbatim>\<open>init(data)\<close> with the instance secret and the sku of \<open>data\<close>; \<^verbatim>\<open>destroy\<close>, which the
  alarm runs, deletes all that is stored.\<close>

definition init :: "string \<Rightarrow> string \<Rightarrow> ServerState \<Rightarrow> ServerState" where
  "init secret data_sku' s = setSKU data_sku' (setInstanceSecret secret s)"

definition destroy :: "ServerState \<Rightarrow> ServerState" where
  "destroy s =
     s\<lparr>sku := None, instance_secret := None, stored := Map.empty, incidents := [],
       deleted_incidents := [], scratchpads := [], scratchpad_of := Map.empty\<rparr>"

definition getScratchpad :: "string \<Rightarrow> ServerState \<Rightarrow> MatchScratchpad option" where
  "getScratchpad i s = scratchpad_of s (''scratchpad_'' @ i)"

definition setScratchpad :: "string \<Rightarrow> MatchScratchpad \<Rightarrow> ServerState \<Rightarrow> ServerState" where
  "setScratchpad i sp s =
     s\<lparr>scratchpads := (if i \<in> set (scratchpads s) then scratchpads s else scratchpads s @ [i]),
       scratchpad_of := (scratchpad_of s)(''scratchpad_'' @ i \<mapsto> sp)\<rparr>"

definition addIncident :: "Incident \<Rightarrow> ServerState \<Rightarrow> ServerState" where
  "addIncident incident s =
     (let s1 = s\<lparr>stored := (stored s)(incident_id incident \<mapsto> incident)\<rparr>;
          list = incidents s1
      in s1\<lparr>incidents := (if incident_id incident \<notin> set list then list @ [incident_id incident]
                            else list)\<rparr>)"

definition editIncident :: "Incident \<Rightarrow> ServerState \<Rightarrow> bool \<times> ServerState" where
  "editIncident incident s =
     (case stored s (incident_id incident) of
        None \<Rightarrow> (False, s)
      | Some current \<Rightarrow> (True, s\<lparr>stored := (stored s)(incident_id incident \<mapsto> incident)\<rparr>))"

definition getDeletedIncidents :: "ServerState \<Rightarrow> string list" where
  "getDeletedIncidents s = new_Set (deleted_incidents s)"

definition deleteIncident :: "string \<Rightarrow> ServerState \<Rightarrow> bool \<times> ServerState" where
  "deleteIncident i s =
     (let list = incidents s;
          filtered = filter (\<lambda>value. value \<noteq> i) list;
          s1 = s\<lparr>incidents := filtered\<rparr>;
          deletedIncidents = getDeletedIncidents s1;
          s2 = (if i \<notin> set deletedIncidents
                then s1\<lparr>deleted_incidents := deletedIncidents @ [i]\<rparr> else s1)
      in (length list \<noteq> length filtered, s2))"

definition getIncident :: "string \<Rightarrow> ServerState \<Rightarrow> Incident option" where
  "getIncident i s = stored s i"

definition getIncidentList :: "ServerState \<Rightarrow> string list" where
  "getIncidentList s = incidents s"

text \<open>\<^verbatim>\<open>groupIds\<close>: \<^verbatim>\<open>Math.ceil(ids.length / size)\<close> chunks, the i-th being
  \<^verbatim>\<open>ids.slice(i * size, (i + 1) * size)\<close>. The size is 128 at both calls.\<close>

definition groupIds :: "string list \<Rightarrow> nat \<Rightarrow> string list list" where
  "groupIds ids size' =
     map (\<lambda>i. take size' (drop (i * size') ids)) [0 ..< (length ids + size' - 1) div size']"

text \<open>A bulk \<^verbatim>\<open>storage.get(ids)\<close> of a durable object: a \<^verbatim>\<open>Map\<close> of the entries that exist.
  The storage hands them over in ascending order of the keys (strings compared byte by
  byte), each key once, whatever the order the keys were asked in.\<close>

definition bulk_get :: "(string \<rightharpoonup> 'a) \<Rightarrow> string list \<Rightarrow> (string \<times> 'a) list" where
  "bulk_get m ids = List.map_filter (\<lambda>k. map_option (Pair k) (m k)) (sort (remdups ids))"

definition getAllIncidents :: "ServerState \<Rightarrow> Incident list" where
  "getAllIncidents s =
     (let ids = getIncidentList s;
          bulkOps = groupIds ids 128;
          result = map (\<lambda>ids. bulk_get (stored s) ids) bulkOps
      in concat (map (map snd) result))"

definition getAllScratchpads :: "ServerState \<Rightarrow> (string \<times> MatchScratchpad) list" where
  "getAllScratchpads s =
     (let list = scratchpads s;
          bulkOps = groupIds list 128;
          result = map (\<lambda>ids. bulk_get (scratchpad_of s) ids) bulkOps
      in fromEntries (concat result))"

definition getData :: "ServerState \<Rightarrow> EventIncidentsData" where
  "getData s =
     \<lparr>data_sku = (case getSKU s of None \<Rightarrow> [] | Some x \<Rightarrow> x),
      data_incidents = getAllIncidents s,
      data_deleted = getDeletedIncidents s\<rparr>"

subsection \<open>Sessions and broadcast\<close>

definition active :: "ServerState \<Rightarrow> SessionClient \<Rightarrow> bool" where
  "active s client \<longleftrightarrow> socket client \<notin> set (inactive s)"

definition getActiveUsers :: "ServerState \<Rightarrow> ShareUser list" where
  "getActiveUsers s = map user (filter (active s) (clients s))"

definition getInvitationList :: "ServerState \<Rightarrow> InvitationListItem list" where
  "getInvitationList s = invitation_list s"

definition createPayload :: "WebSocketMessage \<Rightarrow> WebSocketSender \<Rightarrow> Frame" where
  "createPayload msg sender = Payload msg sender"

text \<open>\<^verbatim>\<open>socket.send\<close>: \<open>None\<close> when the send throws.\<close>

definition socket_send :: "nat \<Rightarrow> Frame \<Rightarrow> ServerState \<Rightarrow> ServerState option" where
  "socket_send k frame s =
     (if k \<in> set (broken s) then None else Some (s\<lparr>outbox := outbox s @ [(k, frame)]\<rparr>))"

text \<open>The \<^verbatim>\<open>filter\<close> of \<^verbatim>\<open>broadcast\<close>: the payload goes to every client in turn; a client
  whose socket throws is marked inactive, leaves \<^verbatim>\<open>this.clients\<close> and is returned
  (\<^verbatim>\<open>clientLefts\<close>).\<close>

definition send_to_clients :: "Frame \<Rightarrow> ServerState \<Rightarrow> SessionClient list \<times> ServerState" where
  "send_to_clients payload s =
     foldl (\<lambda>(clientLefts, st) client.
              (case socket_send (socket client) payload st of
                 Some st' \<Rightarrow> (clientLefts, st'\<lparr>clients := clients st' @ [client]\<rparr>)
               | None \<Rightarrow> (clientLefts @ [client], st\<lparr>inactive := inactive st @ [socket client]\<rparr>)))
       ([], s\<lparr>clients := []\<rparr>) (clients s)"

text \<open>\<^verbatim>\<open>broadcast\<close>. For every client that left, \<^verbatim>\<open>server_user_remove\<close> is broadcast in
  turn; that inner broadcast meets no throwing socket (the clients that are left all took
  the payload; lemma \<open>send_to_clients_again\<close>), so it is one round of sends.\<close>

definition broadcast :: "WebSocketMessage \<Rightarrow> WebSocketSender \<Rightarrow> ServerState \<Rightarrow> ServerState" where
  "broadcast msg sender s =
     (let payload = createPayload msg sender;
          (clientLefts, s1) = send_to_clients payload s;
          activeUsers = getActiveUsers s1;
          invitations = getInvitationList s1
      in foldl (\<lambda>st client.
                  snd (send_to_clients
                    (createPayload (server_user_remove (user client) invitations activeUsers)
                       ServerSender) st))
           s1 clientLefts)"

definition sender_of :: "SessionClient \<Rightarrow> WebSocketSender" where
  "sender_of client = ClientSender (user_name (user client)) (user_id (user client))"

text \<open>\<^verbatim>\<open>handleSession\<close> up to the moment the snapshot is sent; the listeners it installs
  are \<open>onMessage\<close> and \<open>quitHandler\<close> below. The new session object is active.\<close>

definition handleSession ::
  "nat \<Rightarrow> string \<Rightarrow> ShareUser \<Rightarrow> ServerState \<Rightarrow> error option \<times> ServerState" where
  "handleSession sock ip_addr usr s =
     (let client = \<lparr>user = usr, socket = sock, ip = ip_addr\<rparr>;
          s1 = s\<lparr>clients := filter (\<lambda>c. user_id (user c) \<noteq> user_id usr) (clients s) @ [client],
                 inactive := removeAll sock (inactive s)\<rparr>;
          activeUsers = getActiveUsers s1;
          invitations = getInvitationList s1;
          s2 = broadcast (server_user_add usr invitations activeUsers) ServerSender s1;
          state = server_share_info (getActiveUsers s2) invitations (getData s2) (getAllScratchpads s2);
          payload = createPayload state ServerSender
      in case socket_send sock payload s2 of
           None \<Rightarrow> (Some TypeError, s2)
         | Some s3 \<Rightarrow> (None, s3))"

text \<open>\<^verbatim>\<open>handleWebsocket\<close> for a request with or without the \<^verbatim>\<open>Upgrade: websocket\<close> header,
  the \<^verbatim>\<open>CF-Connecting-IP\<close> header and the \<^verbatim>\<open>name\<close> and \<^verbatim>\<open>id\<close> of the URL; \<open>sock\<close> is the
  server end of the new socket pair. A missing or empty name or id is answered on the
  socket, which is then closed.\<close>

definition handleWebsocket ::
  "bool \<Rightarrow> string option \<Rightarrow> string option \<Rightarrow> string option \<Rightarrow> nat \<Rightarrow> ServerState
     \<Rightarrow> ServerState" where
  "handleWebsocket upgrade ip_header name_param id_param' sock s =
     (let ip_addr = (case ip_header of None \<Rightarrow> ''0.0.0.0'' | Some a \<Rightarrow> a)
      in if upgrade then
           (case (name_param, id_param') of
              (Some n, Some i) \<Rightarrow>
                if n = [] \<or> i = []
                then (case socket_send sock ErrorFrame s of
                        None \<Rightarrow> s
                      | Some s' \<Rightarrow> s'\<lparr>closed := closed s' @ [sock]\<rparr>)
                else snd (handleSession sock ip_addr \<lparr>user_name = n, user_id = i\<rparr> s)
            | _ \<Rightarrow>
                (case socket_send sock ErrorFrame s of
                   None \<Rightarrow> s
                 | Some s' \<Rightarrow> s'\<lparr>closed := closed s' @ [sock]\<rparr>))
         else s)"

text \<open>The \<^verbatim>\<open>message\<close> listener of a session; \<open>data\<close> is the parsed frame, \<open>None\<close> when
  \<^verbatim>\<open>JSON.parse\<close> throws. A frame of a server-only type matches no case.\<close>

definition onMessage :: "SessionClient \<Rightarrow> WebSocketMessage option \<Rightarrow> ServerState \<Rightarrow> ServerState" where
  "onMessage client data s =
     (if \<not> active s client then s\<lparr>closed := closed s @ [socket client]\<rparr>
      else
        (case data of
           None \<Rightarrow> (case socket_send (socket client) ErrorFrame s of None \<Rightarrow> s | Some s' \<Rightarrow> s')
         | Some (add_incident incident) \<Rightarrow>
             broadcast (add_incident incident) (sender_of client) (addIncident incident s)
         | Some (update_incident incident) \<Rightarrow>
             broadcast (update_incident incident) (sender_of client) (snd (editIncident incident s))
         | Some (remove_incident i) \<Rightarrow>
             broadcast (remove_incident i) (sender_of client) (snd (deleteIncident i s))
         | Some (scratchpad_update i sp) \<Rightarrow>
             broadcast (scratchpad_update i sp) (sender_of client) (setScratchpad i sp s)
         | Some (message m) \<Rightarrow> broadcast (message m) (sender_of client) s
         | Some _ \<Rightarrow> s))"

definition quitHandler :: "SessionClient \<Rightarrow> ServerState \<Rightarrow> ServerState" where
  "quitHandler client s =
     (let s1 = s\<lparr>inactive := inactive s @ [socket client],
                 clients := filter (\<lambda>member. socket member \<noteq> socket client) (clients s)\<rparr>;
          activeUsers = getActiveUsers s1;
          invitations = getInvitationList s1
      in broadcast (server_user_remove (user client) invitations activeUsers) ServerSender s1)"

subsection \<open>The HTTP handlers\<close>

definition getRequestUser :: "Request \<Rightarrow> string \<times> string" where
  "getRequestUser request =
     (case user_name_header request of None \<Rightarrow> [] | Some n \<Rightarrow> n,
      case user_key_header request of None \<Rightarrow> [] | Some k \<Rightarrow> k)"

text \<open>The \<^verbatim>\<open>sender\<close> of the three mutation handlers: the session of the requesting key when
  there is one, the server otherwise.\<close>

definition request_sender :: "Request \<Rightarrow> ServerState \<Rightarrow> WebSocketSender" where
  "request_sender request s =
     (case find (\<lambda>v. user_id (user v) = snd (getRequestUser request)) (clients s) of
        Some client \<Rightarrow> ClientSender (user_name (user client)) (user_id (user client))
      | None \<Rightarrow> ServerSender)"

definition handleAddIncident :: "Request \<Rightarrow> ServerState \<Rightarrow> Response \<times> ServerState" where
  "handleAddIncident request s =
     (let sender = request_sender request s in
      case content request of
        None \<Rightarrow> (failure ''bad_request'' ''Must specify a valid incident.'', s)
      | Some incident \<Rightarrow>
          if incident_id incident \<in> set (getDeletedIncidents s)
          then (failure ''bad_request'' ''That incident has been deleted.'', s)
          else (success (incident_data incident),
                broadcast (add_incident incident) sender (addIncident incident s)))"

definition handleEditIncident :: "Request \<Rightarrow> ServerState \<Rightarrow> Response \<times> ServerState" where
  "handleEditIncident request s =
     (case content request of
        None \<Rightarrow> (failure ''bad_request'' ''Must specify a valid incident to edit.'', s)
      | Some incident \<Rightarrow>
          if incident_id incident \<in> set (getDeletedIncidents s)
          then (failure ''bad_request'' ''That incident has been deleted.'', s)
          else
            (let currentIncident = getIncident (incident_id incident) s;
                 sender = request_sender request s;
                 currentRevision =
                   (case currentIncident of
                      None \<Rightarrow> 0
                    | Some c \<Rightarrow> (case revision c of None \<Rightarrow> 0 | Some r \<Rightarrow> rev_count r))
             in if (case revision incident of
                      None \<Rightarrow> False
                    | Some r \<Rightarrow> rev_count r < currentRevision)
                then (failure ''bad_request'' ''The incident has been edited more recently.'', s)
                else
                  (let incident' =
                         (case revision incident of
                            None \<Rightarrow> incident\<lparr>revision :=
                                      Some \<lparr>rev_count = 1, rev_user = sender, rev_history = []\<rparr>\<rparr>
                          | Some r \<Rightarrow> incident);
                       (ok, s1) = editIncident incident' s
                   in if \<not> ok
                      then (failure ''bad_request'' ''Could not edit incident with that ID'', s1)
                      else (success (revision_data (revision incident')),
                            broadcast (update_incident incident') sender s1))))"

definition handleDeleteIncident :: "Request \<Rightarrow> ServerState \<Rightarrow> Response \<times> ServerState" where
  "handleDeleteIncident request s =
     (let sender = request_sender request s in
      case id_param request of
        None \<Rightarrow> (failure ''bad_request'' ''Must specify `id` of incident to delete'', s)
      | Some i \<Rightarrow>
          if i = [] then (failure ''bad_request'' ''Must specify `id` of incident to delete'', s)
          else
            (let (ok, s1) = deleteIncident i s
             in if \<not> ok
                then (failure ''bad_request'' ''Could not find incident with that ID'', s1)
                else (success empty_data, broadcast (remove_incident i) sender s1)))"

text \<open>The read-only handlers \<^verbatim>\<open>/get\<close> and \<^verbatim>\<open>/json\<close>.\<close>

definition createServerShareMessage :: "ServerState \<Rightarrow> WebSocketMessage" where
  "createServerShareMessage s =
     (let data = getData s;
          activeUsers = getActiveUsers s;
          invitations = getInvitationList s;
          scratchpads' = getAllScratchpads s
      in server_share_info activeUsers invitations data scratchpads')"

definition handleGet :: "ServerState \<Rightarrow> Response" where
  "handleGet s = success (message_data (createServerShareMessage s))"

definition handleJSON :: "ServerState \<Rightarrow> Response" where
  "handleJSON s = success (list_data (getAllIncidents s))"

subsection \<open>The CSV export\<close>




fun join :: "string \<Rightarrow> string list \<Rightarrow> string" where
  "join sep [] = []"
| "join sep [x] = x"
| "join sep (x # y # ys) = x @ sep @ join sep (y # ys)"






section \<open>The client: \<^verbatim>\<open>src/utils/data/scratchpad.ts\<close> and \<^verbatim>\<open>incident.ts\<close>\<close>

text \<open>
  On the client a scratchpad and an incident are objects whose properties the edit
  functions walk with \<^verbatim>\<open>Object.entries\<close>: a list of properties with values of a type
  \<open>'v\<close> (\<open>None\<close> for \<^verbatim>\<open>undefined\<close>) and, apart from them, the \<^verbatim>\<open>revision\<close>.
\<close>

record 'v Change =
  property :: string
  old :: "'v option"
  new :: "'v option"

record 'v HistoryEntry =
  entry_user :: WebSocketSender
  entry_date :: string
  changes :: "'v Change list"

record 'v Revisable =
  properties :: "'v option js_object"
  doc_revision :: "'v HistoryEntry Revision option"

type_synonym 'v ClientScratchpad = "'v Revisable"
type_synonym 'v ClientIncident = "'v Revisable"

text \<open>What the platform does to a value: \<^verbatim>\<open>JSON.stringify\<close>, the conversion of a template
  literal, and a string as a value.\<close>

record 'v Platform =
  stringify :: "'v \<Rightarrow> string"
  to_string :: "'v option \<Rightarrow> string"
  of_string :: "string \<Rightarrow> 'v"

text \<open>The key-value store of the client (\<^verbatim>\<open>idb-keyval\<close>) with the objects and the index
  sets of the scratchpads, and the frames handed to the share connection
  (\<^verbatim>\<open>websocket?.send\<close>, when there is a socket) and to the server over HTTP.\<close>

record 'v ClientStore =
  documents :: "string \<rightharpoonup> 'v Revisable"
  index_sets :: "string \<rightharpoonup> string list"
  websocket :: bool
  sent_scratchpads :: "(string \<times> 'v Revisable) list"
  sent_incidents :: "'v Revisable list"

definition js_prop :: "'v option js_object \<Rightarrow> string \<Rightarrow> 'v option" where
  "js_prop obj k = (case js_get obj k of None \<Rightarrow> None | Some v \<Rightarrow> v)"

text \<open>\<^verbatim>\<open>JSON.stringify(a) != JSON.stringify(b)\<close>; \<^verbatim>\<open>JSON.stringify(undefined)\<close> is
  \<^verbatim>\<open>undefined\<close>.\<close>

definition differs :: "'v Platform \<Rightarrow> 'v option \<Rightarrow> 'v option \<Rightarrow> bool" where
  "differs pf a b \<longleftrightarrow> map_option (stringify pf) a \<noteq> map_option (stringify pf) b"

definition getMatchScratchpad :: "string \<Rightarrow> 'v ClientStore \<Rightarrow> 'v ClientScratchpad option" where
  "getMatchScratchpad i st = documents st i"

definition setMatchScratchpad ::
  "'v Platform \<Rightarrow> string \<Rightarrow> 'v ClientScratchpad \<Rightarrow> 'v ClientStore \<Rightarrow> 'v ClientStore" where
  "setMatchScratchpad pf i sp st =
     (let idx = ''scratchpad_'' @ to_string pf (js_prop (properties sp) ''event'') @ ''_idx''
      in st\<lparr>index_sets := (index_sets st)(idx \<mapsto>
               (case index_sets st idx of
                  Some old_set \<Rightarrow> (if i \<in> set old_set then old_set else old_set @ [i])
                | None \<Rightarrow> [i])),
             documents := (documents st)(i \<mapsto> sp)\<rparr>)"

definition updateScratchpad :: "string \<Rightarrow> 'v ClientScratchpad \<Rightarrow> 'v ClientStore \<Rightarrow> 'v ClientStore" where
  "updateScratchpad i sp st =
     (if websocket st then st\<lparr>sent_scratchpads := sent_scratchpads st @ [(i, sp)]\<rparr> else st)"

text \<open>The loop of \<^verbatim>\<open>editScratchpad\<close> over the entries of the patch.\<close>

definition scratchpad_changes ::
  "'v Platform \<Rightarrow> 'v ClientScratchpad \<Rightarrow> 'v option js_object \<Rightarrow> 'v Change list" where
  "scratchpad_changes pf current patch =
     List.map_filter
       (\<lambda>(key, currentValue).
          if key \<in> set [''event'', ''match'', ''revision'', ''game''] then None
          else
            (let newValue = js_prop (properties current) key
             in if differs pf currentValue newValue
                then Some \<lparr>property = key, old = currentValue, new = newValue\<rparr>
                else None))
       patch"

text \<open>\<^verbatim>\<open>editScratchpad(id, scratchpad)\<close>; \<open>sender\<close> is what \<^verbatim>\<open>getSender()\<close> returns and \<open>now\<close>
  the date. In \<^verbatim>\<open>{...current, ...scratchpad, revision}\<close> the revision comes last, so a
  \<^verbatim>\<open>revision\<close> of the patch is not kept.\<close>

definition editScratchpad ::
  "'v Platform \<Rightarrow> WebSocketSender \<Rightarrow> string \<Rightarrow> string \<Rightarrow> 'v option js_object
     \<Rightarrow> 'v ClientStore \<Rightarrow> 'v ClientStore" where
  "editScratchpad pf sender now i patch st =
     (case getMatchScratchpad i st of
        None \<Rightarrow> st
      | Some current \<Rightarrow>
          (let changes' = scratchpad_changes pf current patch
           in if length changes' < 1 then st
              else
                (let revision0 =
                       (case doc_revision current of
                          None \<Rightarrow> \<lparr>rev_count = 0, rev_user = sender, rev_history = []\<rparr>
                        | Some r \<Rightarrow> r);
                     revision' =
                       revision0\<lparr>rev_count := rev_count revision0 + 1,
                                 rev_history := rev_history revision0 @
                                   [\<lparr>entry_user = sender, entry_date = now, changes = changes'\<rparr>]\<rparr>;
                     value =
                       \<lparr>properties = js_assign (properties current)
                                       (filter (\<lambda>(k, v). k \<noteq> ''revision'') patch),
                        doc_revision = Some revision'\<rparr>
                 in setMatchScratchpad pf i value (updateScratchpad i value st))))"

text \<open>The incident path, \<^verbatim>\<open>editIncident(id, incident, updateRemote)\<close> of the client:
  \<^verbatim>\<open>getIncident\<close> returns the stored object with its \<^verbatim>\<open>id\<close>, and the loop runs over the
  entries of the stored object.\<close>

definition client_getIncident ::
  "'v Platform \<Rightarrow> string \<Rightarrow> 'v ClientStore \<Rightarrow> 'v ClientIncident option" where
  "client_getIncident pf i st =
     (case documents st i of
        None \<Rightarrow> None
      | Some v \<Rightarrow> Some (v\<lparr>properties := js_assign (properties v) [(''id'', Some (of_string pf i))]\<rparr>))"

definition incident_changes ::
  "'v Platform \<Rightarrow> 'v ClientIncident \<Rightarrow> 'v option js_object \<Rightarrow> 'v Change list" where
  "incident_changes pf current incident =
     List.map_filter
       (\<lambda>(key, currentValue).
          if key = ''revision'' \<or> key = ''team'' \<or> key = ''event'' then None
          else
            (let newValue = js_prop incident key
             in if differs pf currentValue newValue
                then Some \<lparr>property = key, old = currentValue, new = newValue\<rparr>
                else None))
       (properties current)"

definition client_editIncident ::
  "'v Platform \<Rightarrow> WebSocketSender \<Rightarrow> string \<Rightarrow> string \<Rightarrow> 'v option js_object \<Rightarrow> bool
     \<Rightarrow> 'v ClientStore \<Rightarrow> 'v ClientStore" where
  "client_editIncident pf sender now i incident updateRemote st =
     (case client_getIncident pf i st of
        None \<Rightarrow> st
      | Some current \<Rightarrow>
          (let changes' = incident_changes pf current incident;
               revision0 =
                 (case doc_revision current of
                    None \<Rightarrow> \<lparr>rev_count = 0, rev_user = sender, rev_history = []\<rparr>
                  | Some r \<Rightarrow> r);
               revision' =
                 revision0\<lparr>rev_count := rev_count revision0 + 1,
                           rev_history := rev_history revision0 @
                             [\<lparr>entry_user = sender, entry_date = now, changes = changes'\<rparr>]\<rparr>;
               updatedIncident =
                 \<lparr>properties = js_assign (properties current)
                                 (filter (\<lambda>(k, v). k \<noteq> ''revision'') incident),
                  doc_revision = Some revision'\<rparr>;
               st1 = st\<lparr>documents := (documents st)(i \<mapsto> updatedIncident)\<rparr>
           in if updateRemote then st1\<lparr>sent_incidents := sent_incidents st1 @ [updatedIncident]\<rparr>
              else st1))"

section \<open>Notions used to state the properties of the server\<close>

text \<open>The clients whose socket takes a frame, and a state before any request.\<close>

definition working :: "ServerState \<Rightarrow> SessionClient list" where
  "working s = filter (\<lambda>c. socket c \<notin> set (broken s)) (clients s)"

text \<open>The \<^verbatim>\<open>server_user_remove\<close> frames one \<open>broadcast\<close> sends after its payload, for
  the clients whose socket threw.\<close>

definition leave_notices :: "ServerState \<Rightarrow> (nat \<times> Frame) list" where
  "leave_notices s =
     (let lefts = filter (\<lambda>c. socket c \<in> set (broken s)) (clients s);
          s1 = s\<lparr>clients := working s, inactive := inactive s @ map socket lefts\<rparr>
      in concat (map (\<lambda>l. map (\<lambda>c. (socket c,
            createPayload (server_user_remove (user l) (getInvitationList s) (getActiveUsers s1)) ServerSender))
            (working s)) lefts))"

text \<open>The \<^verbatim>\<open>currentRevision\<close> of \<^verbatim>\<open>handleEditIncident\<close>, the staleness test on it, and the
  incident with the revision a body without one is given.\<close>

definition currentRevision :: "ServerState \<Rightarrow> string \<Rightarrow> int" where
  "currentRevision s i =
     (case getIncident i s of
        None \<Rightarrow> 0
      | Some c \<Rightarrow> (case revision c of None \<Rightarrow> 0 | Some r \<Rightarrow> rev_count r))"

definition stale :: "ServerState \<Rightarrow> Incident \<Rightarrow> bool" where
  "stale s incident \<longleftrightarrow>
     (case revision incident of
        None \<Rightarrow> False
      | Some r \<Rightarrow> rev_count r < currentRevision s (incident_id incident))"

definition first_revision :: "WebSocketSender \<Rightarrow> RevisionEntry Revision" where
  "first_revision sender = \<lparr>rev_count = 1, rev_user = sender, rev_history = []\<rparr>"

definition revised :: "WebSocketSender \<Rightarrow> Incident \<Rightarrow> Incident" where
  "revised sender incident =
     (case revision incident of
        None \<Rightarrow> incident\<lparr>revision := Some (first_revision sender)\<rparr>
      | Some r \<Rightarrow> incident)"

definition initial_state :: ServerState where
  "initial_state =
     \<lparr>sku = None, instance_secret = None, stored = Map.empty, incidents = [], deleted_incidents = [], scratchpads = [],
      scratchpad_of = Map.empty, clients = [], inactive = [], broken = [], invitation_list = [],
      outbox = [], closed = []\<rparr>"

text \<open>The states the durable object can be in: between two handlers the environment may
  break or mend sockets and change the invitation list, and the object may be evicted from
  memory, which loses its sessions and keeps what is stored. The read-only handlers
  (\<^verbatim>\<open>/get\<close>, \<^verbatim>\<open>/csv\<close>, \<^verbatim>\<open>/json\<close>) change nothing.\<close>

inductive reachable :: "ServerState \<Rightarrow> bool" where
  start: "reachable initial_state"
| environment: "reachable s \<Longrightarrow> reachable (s\<lparr>broken := b, invitation_list := il\<rparr>)"
| evicted: "reachable s \<Longrightarrow> reachable (s\<lparr>clients := [], inactive := []\<rparr>)"
| initialised: "reachable s \<Longrightarrow> reachable (init secret data_sku' s)"
| alarm: "reachable s \<Longrightarrow> reachable (destroy s)"
| websocket_request:
    "reachable s \<Longrightarrow> reachable (handleWebsocket upgrade ip_header name_param id_param' sock s)"
| put_incident: "reachable s \<Longrightarrow> reachable (snd (handleAddIncident request s))"
| patch_incident: "reachable s \<Longrightarrow> reachable (snd (handleEditIncident request s))"
| delete_incident: "reachable s \<Longrightarrow> reachable (snd (handleDeleteIncident request s))"
| join: "reachable s \<Longrightarrow> reachable (snd (handleSession sock ip_addr usr s))"
| frame: "reachable s \<Longrightarrow> reachable (onMessage client data s)"
| quit: "reachable s \<Longrightarrow> reachable (quitHandler client s)"

section \<open>Example data\<close>

text \<open>The ignore list and the incidents of the tests of \<^verbatim>\<open>mergeMap\<close>, with string values.\<close>

definition INCIDENT_IGNORE :: "string list" where
  "INCIDENT_IGNORE = [''id'', ''event'', ''team'']"

definition initial :: "string \<Rightarrow> string FieldMeta" where
  "initial p = \<lparr>count = 0, peer = p, history = []\<rparr>"

definition incident1 :: "string Envelope" where
  "incident1 =
     \<lparr>id' = ''incident1'',
      immutable = [(''event'', ''RE-VRC-23-3690''), (''team'', ''3796B'')],
      tracked = [(''rule'', ''<SG11>'', initial ''LOCAL''), (''note'', ''Expansion'', initial ''LOCAL'')]\<rparr>"

definition note_envelope :: "string \<Rightarrow> string \<Rightarrow> string FieldMeta \<Rightarrow> string Envelope" where
  "note_envelope i v m =
     \<lparr>id' = i, immutable = [(''event'', ''RE-VRC-23-3690''), (''team'', ''3796B'')],
      tracked = [(''note'', v, m)]\<rparr>"

text \<open>One peer holds \<^verbatim>\<open>incident1\<close>, the other has deleted it.\<close>

definition tombstone_local :: "string ConsistentMap" where
  "tombstone_local = \<lparr>deleted = [], values' = [(''incident1'', incident1)]\<rparr>"

definition tombstone_remote :: "string ConsistentMap" where
  "tombstone_remote = \<lparr>deleted = [''incident1''], values' = []\<rparr>"

text \<open>Two maps that share \<^verbatim>\<open>i2\<close> (a tie of the counts, the local peer id is the larger) and
  \<^verbatim>\<open>i3\<close> (the remote count is the larger).\<close>

definition push_local :: "string ConsistentMap" where
  "push_local =
     \<lparr>deleted = [''incident1'', ''incident2''],
      values' =
        [(''i1'', note_envelope ''i1'' ''a'' (initial ''P'')),
         (''i2'', note_envelope ''i2'' ''c'' \<lparr>count = 1, peer = ''ZZZ'', history = [(''a'', ''P'')]\<rparr>),
         (''i3'', note_envelope ''i3'' ''a'' (initial ''P''))]\<rparr>"

definition push_remote :: "string ConsistentMap" where
  "push_remote =
     \<lparr>deleted = [''incident2'', ''incident3''],
      values' =
        [(''i2'', note_envelope ''i2'' ''b'' \<lparr>count = 1, peer = ''AAA'', history = [(''a'', ''P'')]\<rparr>),
         (''i3'', note_envelope ''i3'' ''b'' \<lparr>count = 1, peer = ''Q'', history = [(''a'', ''P'')]\<rparr>),
         (''i4'', note_envelope ''i4'' ''a'' (initial ''Q''))]\<rparr>"

text \<open>The same edit of the note of \<^verbatim>\<open>i1\<close>, from \<^verbatim>\<open>a\<close> to \<^verbatim>\<open>b\<close>, made by the peer \<open>p\<close>.\<close>

definition edit_by :: "string \<Rightarrow> string ConsistentMap" where
  "edit_by p =
     \<lparr>deleted = [],
      values' = [(''i1'', note_envelope ''i1'' ''b'' \<lparr>count = 1, peer = p, history = [(''a'', ''X'')]\<rparr>)]\<rparr>"


text \<open>Two replicas that share \<^verbatim>\<open>i1\<close>: \<^verbatim>\<open>P\<close> has changed its rule and its note, \<^verbatim>\<open>Q\<close> has made
  the same change of the note and keeps the first rule. \<^verbatim>\<open>P\<close> also holds \<^verbatim>\<open>i2\<close> and the
  tombstone of \<^verbatim>\<open>i9\<close>.\<close>

definition replica_p :: "string ConsistentMap" where
  "replica_p =
     \<lparr>deleted = [''i9''],
      values' =
        [(''i1'',
          \<lparr>id' = ''i1'', immutable = [(''event'', ''RE-VRC-23-3690''), (''team'', ''3796B'')],
           tracked = [(''rule'', ''<SG8>'', \<lparr>count = 1, peer = ''P'', history = [(''<SG11>'', ''X'')]\<rparr>),
                      (''note'', ''b'', \<lparr>count = 1, peer = ''P'', history = [(''a'', ''X'')]\<rparr>)]\<rparr>),
         (''i2'', note_envelope ''i2'' ''a'' (initial ''P''))]\<rparr>"

definition replica_q :: "string ConsistentMap" where
  "replica_q =
     \<lparr>deleted = [],
      values' =
        [(''i1'',
          \<lparr>id' = ''i1'', immutable = [(''event'', ''RE-VRC-23-3690''), (''team'', ''3796B'')],
           tracked = [(''note'', ''b'', \<lparr>count = 1, peer = ''Q'', history = [(''a'', ''X'')]\<rparr>),
                      (''rule'', ''<SG11>'', initial ''X'')]\<rparr>)]\<rparr>"

text \<open>Two referees with a session each, a report with a given revision, and requests of the
  first referee.\<close>

definition referee_a :: ShareUser where
  "referee_a = \<lparr>user_name = ''Ada'', user_id = ''KEY-A''\<rparr>"

definition referee_b :: ShareUser where
  "referee_b = \<lparr>user_name = ''Bea'', user_id = ''KEY-B''\<rparr>"

definition session_a :: SessionClient where
  "session_a = \<lparr>user = referee_a, socket = 1, ip = ''10.0.0.1''\<rparr>"

definition session_b :: SessionClient where
  "session_b = \<lparr>user = referee_b, socket = 2, ip = ''10.0.0.2''\<rparr>"

definition revision_n :: "int \<Rightarrow> RevisionEntry Revision" where
  "revision_n n = \<lparr>rev_count = n, rev_user = ServerSender, rev_history = []\<rparr>"

definition report :: "RevisionEntry Revision option \<Rightarrow> Incident" where
  "report r =
     \<lparr>incident_id = ''incident1'', time = ''2024-03-01T10:00:00.000Z'', event = ''RE-VRC-23-3690'',
      team = ''3796B'', match = Some (Skills programming 2), outcome = ''Minor'',
      rules = [''<SG11>'', ''<SG8>''], notes' = ''Expansion'' @ [CHR 0x09] @ ''too early'',
      revision = r\<rparr>"

definition request_a :: "Incident option \<Rightarrow> string option \<Rightarrow> Request" where
  "request_a body i =
     \<lparr>user_name_header = Some ''Ada'', user_key_header = Some ''KEY-A'', content = body, id_param = i\<rparr>"

text \<open>The report stored with revision count 3, both referees connected; and the same
  sessions after the report has been deleted.\<close>

definition live_state :: ServerState where
  "live_state =
     initial_state\<lparr>stored := [''incident1'' \<mapsto> report (Some (revision_n 3))],
                    incidents := [''incident1''],
                    clients := [session_a, session_b]\<rparr>"


text \<open>The first referee has joined once.\<close>

definition joined_state :: ServerState where
  "joined_state = snd (handleSession 1 ''10.0.0.1'' referee_a initial_state)"


definition undated_report :: Incident where
  "undated_report = (report None)\<lparr>incident_id := ''incident2'', time := ''not a date''\<rparr>"


text \<open>A client with one scratchpad, values being strings, and a patch of its notes.\<close>

definition string_platform :: "string Platform" where
  "string_platform =
     \<lparr>stringify = (\<lambda>v. v),
      to_string = (\<lambda>v. case v of None \<Rightarrow> ''undefined'' | Some x \<Rightarrow> x),
      of_string = (\<lambda>x. x)\<rparr>"

definition pad :: "string ClientScratchpad" where
  "pad =
     \<lparr>properties = [(''event'', Some ''RE-VRC-23-3690''), (''game'', Some ''High Stakes''),
                    (''notes'', Some ''''), (''auto'', Some ''none'')],
      doc_revision = Some \<lparr>rev_count = 0, rev_user = ServerSender, rev_history = []\<rparr>\<rparr>"

definition pad_store :: "string ClientStore" where
  "pad_store =
     \<lparr>documents = [''scratchpad_RE-VRC-23-3690_1_Q1'' \<mapsto> pad], index_sets = Map.empty,
      websocket = True, sent_scratchpads = [], sent_incidents = []\<rparr>"

definition pad_patch :: "string option js_object" where
  "pad_patch = [(''notes'', Some ''late start''), (''auto'', Some ''none'')]"

section \<open>Properties of the consistent map\<close>

subsection \<open>Sets, objects and the per-id merge\<close>

lemma set_new_Set_aux: "set (foldl (\<lambda>s x. if x \<in> set s then s else s @ [x]) acc xs) = set acc \<union> set xs"
  by (induction xs arbitrary: acc) auto

lemma set_new_Set [simp]: "set (new_Set xs) = set xs"
  by (simp add: new_Set_def set_new_Set_aux)

lemma set_difference [simp]: "set (difference xs ys) = set xs - set ys"
  by (auto simp: difference_def)

lemma set_intersection [simp]: "set (intersection xs ys) = set xs \<inter> set ys"
  by (auto simp: intersection_def)

lemma map_of_js_assign: "map_of (js_assign obj src) = map_of obj ++ map_of (rev src)"
  unfolding js_assign_def
proof (induction src arbitrary: obj)
  case Nil
  then show ?case by simp
next
  case (Cons p src)
  obtain k v where p: "p = (k, v)" by (cases p)
  show ?case
    by (simp add: p Cons.IH update_conv' map_add_def fun_eq_iff map_of_append split: option.splits)
qed

lemma mergeLWW_both:
  "\<exists>e. lww_resolved (mergeLWW ignore (Some x) (Some y)) = Some e \<and> id' e = id' x"
  by (simp add: mergeLWW_def Let_def)

lemma consistent_id: "consistent m \<Longrightarrow> js_get (values' m) i = Some x \<Longrightarrow> id' x = i"
  by (auto simp: consistent_def js_get_def dest!: map_of_SomeD)

lemma js_get_key: "i \<in> set (js_keys obj) \<Longrightarrow> \<exists>x. js_get obj i = Some x"
  by (auto simp: js_keys_def js_get_def weak_map_of_SomeI image_iff Bex_def map_of_eq_None_iff[symmetric] simp del: map_of_eq_None_iff)

lemma resolved_ids_shared:
  assumes "consistent l" and "set ids \<subseteq> set (js_keys (values' l)) \<inter> set (js_keys (values' r))"
  shows "resolved_ids (filter P (map (\<lambda>i. mergeLWW ig (js_get (values' l) i) (js_get (values' r) i)) ids))
         = filter (\<lambda>i. P (mergeLWW ig (js_get (values' l) i) (js_get (values' r) i))) ids"
  using assms(2)
proof (induction ids)
  case Nil
  then show ?case by (simp add: resolved_ids_def List.map_filter_simps)
next
  case (Cons i ids)
  from Cons.prems obtain x y where x: "js_get (values' l) i = Some x" and y: "js_get (values' r) i = Some y"
    using js_get_key[of i "values' l"] js_get_key[of i "values' r"] by auto
  obtain e where e: "lww_resolved (mergeLWW ig (Some x) (Some y)) = Some e" "id' e = id' x"
    using mergeLWW_both by blast
  have "id' x = i" using consistent_id[OF assms(1) x] .
  with Cons x y e show ?case
    by (simp add: resolved_ids_def List.map_filter_simps)
qed

lemma resolved_entries_keys:
  assumes "consistent l" and "set ids \<subseteq> set (js_keys (values' l)) \<inter> set (js_keys (values' r))"
  shows "map fst (resolved_entries (map (\<lambda>i. mergeLWW ig (js_get (values' l) i) (js_get (values' r) i)) ids)) = ids"
  using assms(2)
proof (induction ids)
  case Nil
  then show ?case by (simp add: resolved_entries_def List.map_filter_simps)
next
  case (Cons i ids)
  from Cons.prems obtain x y where x: "js_get (values' l) i = Some x" and y: "js_get (values' r) i = Some y"
    using js_get_key[of i "values' l"] js_get_key[of i "values' r"] by auto
  obtain e where e: "lww_resolved (mergeLWW ig (Some x) (Some y)) = Some e" "id' e = id' x"
    using mergeLWW_both by blast
  have "id' x = i" using consistent_id[OF assms(1) x] .
  with Cons x y e show ?case
    by (simp add: resolved_entries_def List.map_filter_simps)
qed

lemma shared_resolved:
  assumes "i \<in> set (js_keys (values' l))" "i \<in> set (js_keys (values' r))"
  shows "lww_resolved (mergeLWW ig (js_get (values' l) i) (js_get (values' r) i)) \<noteq> None"
proof -
  from assms obtain x y where "js_get (values' l) i = Some x" "js_get (values' r) i = Some y"
    using js_get_key[of i "values' l"] js_get_key[of i "values' r"] by auto
  then show ?thesis using mergeLWW_both[of ig x y] by auto
qed

lemma mergeMap_returns: "\<exists>res. mergeMap l r ig = Inr res"
  by (auto simp: mergeMap_def Let_def shared_resolved)

lemma js_get_None_iff: "js_get obj i = None \<longleftrightarrow> i \<notin> set (js_keys obj)"
  by (simp add: js_get_def js_keys_def map_of_eq_None_iff)

lemma js_get_Some_iff: "(\<exists>y. js_get obj i = Some y) \<longleftrightarrow> i \<in> set (js_keys obj)"
  using js_get_None_iff[of obj i] by auto

lemma distinct_new_Set_aux:
  "distinct acc \<Longrightarrow> distinct (foldl (\<lambda>s x. if x \<in> set s then s else s @ [x]) acc xs)"
  by (induction xs arbitrary: acc) auto

lemma distinct_new_Set [simp]: "distinct (new_Set xs)"
  by (simp add: new_Set_def distinct_new_Set_aux)

lemma distinct_difference [simp]: "distinct xs \<Longrightarrow> distinct (difference xs ys)"
  by (simp add: difference_def)

lemma distinct_intersection [simp]: "distinct xs \<Longrightarrow> distinct ys \<Longrightarrow> distinct (intersection xs ys)"
  by (simp add: intersection_def)

lemma distinct_js_assign: "distinct (map fst obj) \<Longrightarrow> distinct (map fst (js_assign obj src))"
  unfolding js_assign_def
  by (induction src arbitrary: obj) (auto simp: distinct_update)

lemma map_of_rev_distinct: "distinct (map fst xs) \<Longrightarrow> map_of (rev xs) = map_of xs"
  by (rule map_of_inject_set[THEN iffD2]) (simp_all add: rev_map[symmetric])

lemma map_of_js_assign_object:
  "distinct (map fst src) \<Longrightarrow> map_of (js_assign obj src) = map_of obj ++ map_of src"
  by (simp add: map_of_js_assign map_of_rev_distinct)

lemma map_of_fromEntries: "distinct (map fst es) \<Longrightarrow> map_of (fromEntries es) = map_of es"
  by (simp add: fromEntries_def map_of_js_assign map_of_rev_distinct)

lemma distinct_fromEntries: "distinct (map fst (fromEntries es))"
  by (simp add: fromEntries_def distinct_js_assign)

lemma map_fst_entries_of: "set ids \<subseteq> set (js_keys obj) \<Longrightarrow> map fst (entries_of obj ids) = ids"
proof (induction ids)
  case Nil
  then show ?case by (simp add: entries_of_def List.map_filter_simps)
next
  case (Cons i ids)
  then obtain x where "js_get obj i = Some x" using js_get_key[of i obj] by auto
  with Cons show ?case by (simp add: entries_of_def List.map_filter_simps)
qed

lemma map_of_entries_of:
  "map_of (entries_of obj ids) i = (if i \<in> set ids then map_of obj i else None)"
  by (induction ids) (auto simp: entries_of_def js_get_def List.map_filter_simps split: option.splits)

lemma map_of_resolved_entries:
  assumes "consistent l" and "set ids \<subseteq> set (js_keys (values' l)) \<inter> set (js_keys (values' r))"
  shows "map_of (resolved_entries (map (\<lambda>i. mergeLWW ig (js_get (values' l) i) (js_get (values' r) i)) ids)) i
         = (if i \<in> set ids then lww_resolved (mergeLWW ig (js_get (values' l) i) (js_get (values' r) i)) else None)"
  using assms(2)
proof (induction ids)
  case Nil
  then show ?case by (simp add: resolved_entries_def List.map_filter_simps)
next
  case (Cons j ids)
  from Cons.prems obtain x y where x: "js_get (values' l) j = Some x" and y: "js_get (values' r) j = Some y"
    using js_get_key[of j "values' l"] js_get_key[of j "values' r"] by auto
  obtain e where e: "lww_resolved (mergeLWW ig (Some x) (Some y)) = Some e" "id' e = id' x"
    using mergeLWW_both by blast
  have "id' x = j" using consistent_id[OF assms(1) x] .
  with Cons x y e show ?case
    by (auto simp add: resolved_entries_def List.map_filter_simps)
qed

subsection \<open>What \<open>mergeMap\<close> returns\<close>

text \<open>The result with the local constants of the source spelled out; the \<^verbatim>\<open>TypeError\<close>
  never happens, since the merge of two envelopes is an envelope.\<close>

lemma mergeMap_result:
  "mergeMap l r ig =
     Inr \<lparr>resolved =
           \<lparr>deleted = gs_resolved (mergeGrowSet (deleted l) (deleted r)),
            values' = js_assign (js_assign
               (fromEntries (entries_of (values' l) (difference (new_Set (js_keys (values' l))) (new_Set (js_keys (values' r))))))
               (fromEntries (entries_of (values' r) (difference (new_Set (js_keys (values' r))) (new_Set (js_keys (values' l)))))))
               (fromEntries (resolved_entries (map (\<lambda>i. mergeLWW ig (js_get (values' l) i) (js_get (values' r) i))
                   (intersection (new_Set (js_keys (values' l))) (new_Set (js_keys (values' r)))))))\<rparr>,
          local =
            \<lparr>deleted_ids = remoteOnly (mergeGrowSet (deleted l) (deleted r)),
             values_ids = difference (new_Set (js_keys (values' r))) (new_Set (js_keys (values' l))) @
               resolved_ids (filter (\<lambda>result. length (changed result) > 0)
                 (map (\<lambda>i. mergeLWW ig (js_get (values' l) i) (js_get (values' r) i))
                   (intersection (new_Set (js_keys (values' l))) (new_Set (js_keys (values' r))))))\<rparr>,
          remote =
            \<lparr>deleted_ids = localOnly (mergeGrowSet (deleted l) (deleted r)),
             values_ids = difference (new_Set (js_keys (values' l))) (new_Set (js_keys (values' r))) @
               resolved_ids (filter (\<lambda>result. length (rejected result) > 0)
                 (map (\<lambda>i. mergeLWW ig (js_get (values' l) i) (js_get (values' r) i))
                   (intersection (new_Set (js_keys (values' l))) (new_Set (js_keys (values' r))))))\<rparr>\<rparr>"
  by (auto simp: mergeMap_def Let_def shared_resolved)

lemma resolved_values_lookup:
  assumes "consistent l"
  assumes res: "mergeMap l r ig = Inr res"
  shows "map_of (values' (resolved res)) i =
     (if i \<in> set (js_keys (values' l)) \<and> i \<in> set (js_keys (values' r))
        then lww_resolved (mergeLWW ig (js_get (values' l) i) (js_get (values' r) i))
      else if i \<in> set (js_keys (values' l)) then js_get (values' l) i
      else js_get (values' r) i)"
proof -
  let ?L = "new_Set (js_keys (values' l))" and ?R = "new_Set (js_keys (values' r))"
  have d1: "distinct (map fst (entries_of (values' l) (difference ?L ?R)))"
    by (subst map_fst_entries_of) auto
  have d2: "distinct (map fst (entries_of (values' r) (difference ?R ?L)))"
    by (subst map_fst_entries_of) auto
  have d3: "distinct (map fst (resolved_entries (map (\<lambda>i. mergeLWW ig (js_get (values' l) i) (js_get (values' r) i))
                   (intersection ?L ?R))))"
    by (subst resolved_entries_keys[OF assms(1)]) auto
  have nk: "\<And>obj. i \<notin> set (js_keys obj) \<Longrightarrow> js_get obj i = None"
    by (simp add: js_keys_def js_get_def map_of_eq_None_iff)
  let ?A = "entries_of (values' l) (difference ?L ?R)"
  let ?B = "entries_of (values' r) (difference ?R ?L)"
  let ?C = "resolved_entries (map (\<lambda>i. mergeLWW ig (js_get (values' l) i) (js_get (values' r) i))
                   (intersection ?L ?R))"
  from res have v: "values' (resolved res) = js_assign (js_assign (fromEntries ?A) (fromEntries ?B)) (fromEntries ?C)"
    by (auto simp: mergeMap_result)
  have m: "map_of (values' (resolved res)) = map_of ?A ++ map_of ?B ++ map_of ?C"
    by (simp only: v map_of_js_assign_object distinct_fromEntries map_of_fromEntries d1 d2 d3)
  have a: "map_of ?A i = (if i \<in> set (js_keys (values' l)) \<and> i \<notin> set (js_keys (values' r)) then js_get (values' l) i else None)"
    by (simp add: map_of_entries_of js_get_def)
  have b: "map_of ?B i = (if i \<in> set (js_keys (values' r)) \<and> i \<notin> set (js_keys (values' l)) then js_get (values' r) i else None)"
    by (simp add: map_of_entries_of js_get_def)
  have c: "map_of ?C i = (if i \<in> set (js_keys (values' l)) \<and> i \<in> set (js_keys (values' r))
        then lww_resolved (mergeLWW ig (js_get (values' l) i) (js_get (values' r) i)) else None)"
    by (subst map_of_resolved_entries[OF assms(1)]) auto
  show ?thesis
    using shared_resolved[of i l r ig] nk[of "values' r"]
    by (auto simp: m a b c map_add_def split: option.splits)
qed

subsection \<open>The per-id merge in the two orders\<close>










lemma agree_values:
  assumes "agree x y p q"
  shows "rel_option same_edit (entry p k) (entry q k)"
proof -
  from assms have "entry p k = entry q k \<or>
          (rel_option same_edit (entry x k) (entry y k) \<and> entry p k = entry x k \<and> entry q k = entry y k)"
    by (simp add: agree_def)
  then show ?thesis
  proof
    assume "entry p k = entry q k"
    then show ?thesis by (cases "entry q k") (simp_all add: same_edit_def)
  next
    assume "rel_option same_edit (entry x k) (entry y k) \<and> entry p k = entry x k \<and> entry q k = entry y k"
    then show ?thesis by simp
  qed
qed

lemma contested_needs_order:
  fixes tie_break :: "nat \<times> string \<Rightarrow> nat \<times> string \<Rightarrow> winner"
  assumes "contested l r"
  shows "(case tie_break (count (snd l), peer (snd l)) (count (snd r), peer (snd r)) of Local \<Rightarrow> l | Remote \<Rightarrow> r) \<noteq>
         (case tie_break (count (snd r), peer (snd r)) (count (snd l), peer (snd l)) of Local \<Rightarrow> r | Remote \<Rightarrow> l)"
  using assms by (auto simp: contested_def split: winner.splits)

lemma push_example:
  "map_sum id (\<lambda>res. (values_ids (remote res), values_ids (local res)))
     (mergeMap push_local push_remote INCIDENT_IGNORE) = Inr ([''i1'', ''i2''], [''i4'', ''i3''])"
  by code_simp

lemma consistent_push_local: "consistent push_local"
  by code_simp

lemma consistent_push_remote: "consistent push_remote"
  by code_simp

subsection \<open>Tombstones (C1)\<close>

text \<open>
  C1 as stated fails: \<open>mergeMap\<close> assembles \<^verbatim>\<open>resolved.values\<close> from the ids of the two
  maps and never looks at the deleted set. With \<^verbatim>\<open>incident1\<close> in the local values and in
  the remote tombstones, the resolved state lists \<^verbatim>\<open>incident1\<close> as deleted and still holds
  its envelope.
\<close>

theorem mergeMap_tombstone_counterexample:
  "map_sum id resolved (mergeMap tombstone_local tombstone_remote INCIDENT_IGNORE) =
     Inr \<lparr>deleted = [''incident1''], values' = [(''incident1'', incident1)]\<rparr>"
  by code_simp

text \<open>
  C1 (amended): for a consistent local map and any remote map, \<open>mergeMap\<close> returns; the
  resolved deleted ids are the union of the two deleted lists; the keys of
  \<^verbatim>\<open>resolved.values\<close> are the union of the keys of the two values objects; so an id of
  \<^verbatim>\<open>resolved.deleted\<close> is absent from \<^verbatim>\<open>resolved.values\<close> exactly when it is in neither
  \<^verbatim>\<open>local.values\<close> nor \<^verbatim>\<open>remote.values\<close>.
\<close>

theorem mergeMap_tombstones_kept:
  assumes "consistent local_map"
  shows "\<exists>res. mergeMap local_map remote_map ignore = Inr res \<and>
           set (deleted (resolved res)) = set (deleted local_map) \<union> set (deleted remote_map) \<and>
           set (js_keys (values' (resolved res))) =
             set (js_keys (values' local_map)) \<union> set (js_keys (values' remote_map)) \<and>
           (\<forall>i \<in> set (deleted (resolved res)).
              i \<notin> set (js_keys (values' (resolved res))) \<longleftrightarrow>
              i \<notin> set (js_keys (values' local_map)) \<and> i \<notin> set (js_keys (values' remote_map)))"
proof -
  obtain res where res: "mergeMap local_map remote_map ignore = Inr res"
    using mergeMap_returns by blast
  have d: "set (deleted (resolved res)) = set (deleted local_map) \<union> set (deleted remote_map)"
    using res by (auto simp: mergeMap_result mergeGrowSet_def)
  have "dom (map_of (values' (resolved res))) =
          set (js_keys (values' local_map)) \<union> set (js_keys (values' remote_map))"
  proof -
    have "\<And>i. map_of (values' (resolved res)) i \<noteq> None \<longleftrightarrow>
            i \<in> set (js_keys (values' local_map)) \<union> set (js_keys (values' remote_map))"
      using shared_resolved[of _ local_map remote_map ignore]
      using js_get_Some_iff[of "values' local_map"] js_get_Some_iff[of "values' remote_map"]
      by (auto simp: resolved_values_lookup[OF assms res])
    then show ?thesis by (auto simp: dom_def)
  qed
  then have k: "set (js_keys (values' (resolved res))) =
          set (js_keys (values' local_map)) \<union> set (js_keys (values' remote_map))"
    by (simp add: dom_map_of_conv_image_fst js_keys_def)
  show ?thesis using res d k by auto
qed

text \<open>Witness for C1 (amended): the two maps of the counterexample.\<close>

theorem mergeMap_tombstones_kept_witness:
  "consistent tombstone_local \<and>
   (\<exists>res. mergeMap tombstone_local tombstone_remote INCIDENT_IGNORE = Inr res \<and>
      set (deleted (resolved res)) = {''incident1''} \<and>
      set (js_keys (values' (resolved res))) = {''incident1''})"
proof -
  have c: "consistent tombstone_local"
    by (simp add: consistent_def tombstone_local_def js_keys_def incident1_def)
  show ?thesis
    using mergeMap_tombstones_kept[OF c, of tombstone_remote INCIDENT_IGNORE] c
    by (auto simp: tombstone_local_def tombstone_remote_def js_keys_def)
qed

subsection \<open>Push directions (C2)\<close>

text \<open>
  C2: for a consistent local map and any remote map, \<open>mergeMap\<close> returns, with
  \<^verbatim>\<open>remote.values\<close> the ids that only \<^verbatim>\<open>local.values\<close> has together with the shared ids
  whose per-id merge has a non-empty \<^verbatim>\<open>rejected\<close> list, and \<^verbatim>\<open>local.values\<close> the ids that
  only \<^verbatim>\<open>remote.values\<close> has together with the shared ids whose per-id merge has a
  non-empty \<^verbatim>\<open>changed\<close> list. (Only the local map needs to store every envelope under its
  own id: the merged envelope takes its id from the local side.)
\<close>

theorem mergeMap_push_directions:
  assumes "consistent local_map"
  shows "\<exists>res. mergeMap local_map remote_map ignore = Inr res \<and>
           set (values_ids (remote res)) =
             (set (js_keys (values' local_map)) - set (js_keys (values' remote_map))) \<union>
             {i \<in> set (js_keys (values' local_map)) \<inter> set (js_keys (values' remote_map)).
                rejected (mergeLWW ignore (js_get (values' local_map) i)
                            (js_get (values' remote_map) i)) \<noteq> []} \<and>
           set (values_ids (local res)) =
             (set (js_keys (values' remote_map)) - set (js_keys (values' local_map))) \<union>
             {i \<in> set (js_keys (values' local_map)) \<inter> set (js_keys (values' remote_map)).
                changed (mergeLWW ignore (js_get (values' local_map) i)
                           (js_get (values' remote_map) i)) \<noteq> []}"
proof -
  have s: "set (intersection (new_Set (js_keys (values' local_map))) (new_Set (js_keys (values' remote_map))))
           \<subseteq> set (js_keys (values' local_map)) \<inter> set (js_keys (values' remote_map))"
    by simp
  show ?thesis
    by (auto simp: mergeMap_result resolved_ids_shared[OF assms s])
qed

text \<open>Witness for C2: \<^verbatim>\<open>i1\<close> is local only, \<^verbatim>\<open>i4\<close> remote only; the merge of \<^verbatim>\<open>i2\<close> rejects
  the remote note, the merge of \<^verbatim>\<open>i3\<close> changes the local one.\<close>

theorem mergeMap_push_directions_witness:
  "consistent push_local \<and>
   (\<exists>res. mergeMap push_local push_remote INCIDENT_IGNORE = Inr res \<and>
      set (values_ids (remote res)) = {''i1'', ''i2''} \<and>
      set (values_ids (local res)) = {''i4'', ''i3''})"
proof -
  note c = consistent_push_local
  obtain res where res: "mergeMap push_local push_remote INCIDENT_IGNORE = Inr res"
    and "set (values_ids (remote res)) =
             (set (js_keys (values' push_local)) - set (js_keys (values' push_remote))) \<union>
             {i \<in> set (js_keys (values' push_local)) \<inter> set (js_keys (values' push_remote)).
                rejected (mergeLWW INCIDENT_IGNORE (js_get (values' push_local) i)
                            (js_get (values' push_remote) i)) \<noteq> []}"
    using mergeMap_push_directions[OF c, of push_remote INCIDENT_IGNORE] by blast
  with push_example have "values_ids (remote res) = [''i1'', ''i2'']" "values_ids (local res) = [''i4'', ''i3'']"
    by auto
  with c res show ?thesis by auto
qed

subsection \<open>Commutativity of the resolved state (C3)\<close>



lemma same_edit_keeps_local:
  "map_sum id resolved (mergeMap (edit_by ''P'') (edit_by ''Q'') INCIDENT_IGNORE) = Inr (edit_by ''P'') \<and>
   map_sum id resolved (mergeMap (edit_by ''Q'') (edit_by ''P'') INCIDENT_IGNORE) = Inr (edit_by ''Q'') \<and>
   edit_by ''P'' \<noteq> edit_by ''Q''"
  by code_simp



text \<open>The two replicas merged in both orders: the rule of \<^verbatim>\<open>i1\<close> is the one with the larger
  count, with its entry; the note is the same edit with the peer id of the local side.\<close>

lemma replicas_resolved:
  "map_sum id resolved (mergeMap replica_p replica_q INCIDENT_IGNORE) =
     Inr \<lparr>deleted = [''i9''],
          values' =
            [(''i2'', note_envelope ''i2'' ''a'' (initial ''P'')),
             (''i1'',
              \<lparr>id' = ''i1'', immutable = [(''event'', ''RE-VRC-23-3690''), (''team'', ''3796B'')],
               tracked = [(''rule'', ''<SG8>'', \<lparr>count = 1, peer = ''P'', history = [(''<SG11>'', ''X'')]\<rparr>),
                          (''note'', ''b'', \<lparr>count = 1, peer = ''P'', history = [(''a'', ''X'')]\<rparr>)]\<rparr>)]\<rparr> \<and>
   map_sum id resolved (mergeMap replica_q replica_p INCIDENT_IGNORE) =
     Inr \<lparr>deleted = [''i9''],
          values' =
            [(''i2'', note_envelope ''i2'' ''a'' (initial ''P'')),
             (''i1'',
              \<lparr>id' = ''i1'', immutable = [(''event'', ''RE-VRC-23-3690''), (''team'', ''3796B'')],
               tracked = [(''note'', ''b'', \<lparr>count = 1, peer = ''Q'', history = [(''a'', ''X'')]\<rparr>),
                          (''rule'', ''<SG8>'', \<lparr>count = 1, peer = ''P'', history = [(''<SG11>'', ''X'')]\<rparr>)]\<rparr>)]\<rparr>"
  by code_simp



section \<open>Properties of the sync server\<close>

subsection \<open>Broadcast\<close>

lemma send_to_clients_aux:
  "foldl (\<lambda>(clientLefts, st) client.
              (case socket_send (socket client) payload st of
                 Some st' \<Rightarrow> (clientLefts, st'\<lparr>clients := clients st' @ [client]\<rparr>)
               | None \<Rightarrow> (clientLefts @ [client], st\<lparr>inactive := inactive st @ [socket client]\<rparr>)))
       (lefts, st) cs =
   (lefts @ filter (\<lambda>c. socket c \<in> set (broken st)) cs,
    st\<lparr>clients := clients st @ filter (\<lambda>c. socket c \<notin> set (broken st)) cs,
       inactive := inactive st @ map socket (filter (\<lambda>c. socket c \<in> set (broken st)) cs),
       outbox := outbox st @ map (\<lambda>c. (socket c, payload)) (filter (\<lambda>c. socket c \<notin> set (broken st)) cs)\<rparr>)"
  by (induction cs arbitrary: lefts st) (auto simp: socket_send_def)

lemma send_to_clients_eq:
  "send_to_clients payload s =
     (filter (\<lambda>c. socket c \<in> set (broken s)) (clients s),
      s\<lparr>clients := working s,
        inactive := inactive s @ map socket (filter (\<lambda>c. socket c \<in> set (broken s)) (clients s)),
        outbox := outbox s @ map (\<lambda>c. (socket c, payload)) (working s)\<rparr>)"
  by (simp add: send_to_clients_def send_to_clients_aux working_def)

text \<open>A second round of sends meets no throwing socket.\<close>

lemma send_to_clients_again:
  "fst (send_to_clients p2 (snd (send_to_clients p1 s))) = []"
  by (simp add: send_to_clients_eq working_def)

lemma send_to_working:
  assumes "\<forall>c \<in> set (clients st). socket c \<notin> set (broken st)"
  shows "snd (send_to_clients p st) = st\<lparr>outbox := outbox st @ map (\<lambda>c. (socket c, p)) (clients st)\<rparr>"
proof -
  from assms have "filter (\<lambda>c. socket c \<notin> set (broken st)) (clients st) = clients st"
    and "filter (\<lambda>c. socket c \<in> set (broken st)) (clients st) = []"
    by (auto simp: filter_id_conv filter_empty_conv)
  then show ?thesis by (simp add: send_to_clients_eq working_def)
qed

lemma notices_foldl:
  assumes "\<forall>c \<in> set (clients st). socket c \<notin> set (broken st)"
  shows "foldl (\<lambda>st client. snd (send_to_clients (f client) st)) st lefts =
         st\<lparr>outbox := outbox st @ concat (map (\<lambda>l. map (\<lambda>c. (socket c, f l)) (clients st)) lefts)\<rparr>"
  using assms
proof (induction lefts arbitrary: st)
  case Nil
  then show ?case by simp
next
  case (Cons l lefts)
  let ?st' = "st\<lparr>outbox := outbox st @ map (\<lambda>c. (socket c, f l)) (clients st)\<rparr>"
  have "\<forall>c \<in> set (clients ?st'). socket c \<notin> set (broken ?st')" using Cons.prems by simp
  from Cons.IH[OF this] show ?case by (simp add: send_to_working[OF Cons.prems])
qed

lemma broadcast_eq:
  "broadcast msg sender s =
     s\<lparr>clients := working s,
       inactive := inactive s @ map socket (filter (\<lambda>c. socket c \<in> set (broken s)) (clients s)),
       outbox := outbox s @ map (\<lambda>c. (socket c, Payload msg sender)) (working s) @ leave_notices s\<rparr>"
proof -
  let ?lefts = "filter (\<lambda>c. socket c \<in> set (broken s)) (clients s)"
  let ?s1 = "s\<lparr>clients := working s, inactive := inactive s @ map socket ?lefts,
        outbox := outbox s @ map (\<lambda>c. (socket c, Payload msg sender)) (working s)\<rparr>"
  have w: "\<forall>c \<in> set (clients ?s1). socket c \<notin> set (broken ?s1)"
    by (simp add: working_def)
  have au: "getActiveUsers ?s1 = getActiveUsers (s\<lparr>clients := working s, inactive := inactive s @ map socket ?lefts\<rparr>)"
    by (simp add: getActiveUsers_def active_def[abs_def])
  have first: "send_to_clients (Payload msg sender) s = (?lefts, ?s1)"
    by (simp add: send_to_clients_eq)
  have "broadcast msg sender s =
      foldl (\<lambda>st client. snd (send_to_clients
                (Payload (server_user_remove (user client) (getInvitationList ?s1) (getActiveUsers ?s1)) ServerSender) st))
        ?s1 ?lefts"
    by (simp add: broadcast_def createPayload_def first Let_def)
  also have "\<dots> = ?s1\<lparr>outbox := outbox ?s1 @ concat (map (\<lambda>l. map (\<lambda>c. (socket c,
        Payload (server_user_remove (user l) (getInvitationList ?s1) (getActiveUsers ?s1)) ServerSender)) (clients ?s1)) ?lefts)\<rparr>"
    by (rule notices_foldl[OF w])
  finally show ?thesis
    by (simp add: leave_notices_def createPayload_def getInvitationList_def au Let_def)
qed

lemma broadcast_fields [simp]:
  "stored (broadcast msg sender s) = stored s"
  "incidents (broadcast msg sender s) = incidents s"
  "deleted_incidents (broadcast msg sender s) = deleted_incidents s"
  "sku (broadcast msg sender s) = sku s"
  "scratchpads (broadcast msg sender s) = scratchpads s"
  "scratchpad_of (broadcast msg sender s) = scratchpad_of s"
  "broken (broadcast msg sender s) = broken s"
  "invitation_list (broadcast msg sender s) = invitation_list s"
  "closed (broadcast msg sender s) = closed s"
  "clients (broadcast msg sender s) = working s"
  by (simp_all add: broadcast_eq)

lemma broadcast_outbox:
  "outbox (broadcast msg sender s) =
     outbox s @ map (\<lambda>c. (socket c, Payload msg sender)) (working s) @ leave_notices s"
  by (simp add: broadcast_eq)

lemma leave_notices_cong:
  "clients s' = clients s \<Longrightarrow> broken s' = broken s \<Longrightarrow> inactive s' = inactive s \<Longrightarrow>
   invitation_list s' = invitation_list s \<Longrightarrow> leave_notices s' = leave_notices s"
  by (simp add: leave_notices_def working_def getInvitationList_def getActiveUsers_def active_def[abs_def] Let_def)


lemma working_stored [simp]: "working (s\<lparr>stored := m\<rparr>) = working s"
  by (simp add: working_def)

lemma leave_notices_stored [simp]: "leave_notices (s\<lparr>stored := m\<rparr>) = leave_notices s"
  by (rule leave_notices_cong) simp_all

subsection \<open>The storage operations and the edit handler\<close>

lemma addIncident_fields [simp]:
  "stored (addIncident incident s) = (stored s)(incident_id incident \<mapsto> incident)"
  "incidents (addIncident incident s) =
     (if incident_id incident \<in> set (incidents s) then incidents s else incidents s @ [incident_id incident])"
  "deleted_incidents (addIncident incident s) = deleted_incidents s"
  "clients (addIncident incident s) = clients s"
  "broken (addIncident incident s) = broken s"
  "inactive (addIncident incident s) = inactive s"
  "invitation_list (addIncident incident s) = invitation_list s"
  "outbox (addIncident incident s) = outbox s"
  by (simp_all add: addIncident_def Let_def)

lemma deleteIncident_clients [simp]:
  "clients (snd (deleteIncident i s)) = clients s" "broken (snd (deleteIncident i s)) = broken s"
  by (simp_all add: deleteIncident_def Let_def)

lemma editIncident_clients [simp]:
  "clients (snd (editIncident i s)) = clients s" "broken (snd (editIncident i s)) = broken s"
  by (simp_all add: editIncident_def split: option.splits)

lemma setScratchpad_clients [simp]:
  "clients (setScratchpad i sp s) = clients s" "broken (setScratchpad i sp s) = broken s"
  by (simp_all add: setScratchpad_def)

lemma length_filter_eq: "length (filter P xs) = length xs \<longleftrightarrow> (\<forall>x \<in> set xs. P x)"
proof (induction xs)
  case Nil
  then show ?case by simp
next
  case (Cons x xs)
  have "length (filter P xs) \<le> length xs" by simp
  then have "length (filter P xs) \<noteq> Suc (length xs)" by linarith
  with Cons show ?case by auto
qed

lemma deleteIncident_fields:
  "incidents (snd (deleteIncident i s)) = filter (\<lambda>value. value \<noteq> i) (incidents s)"
  "i \<in> set (deleted_incidents (snd (deleteIncident i s)))"
  "fst (deleteIncident i s) \<longleftrightarrow> i \<in> set (incidents s)"
  using length_filter_eq[of "\<lambda>value. value \<noteq> i" "incidents s"]
  by (auto simp: deleteIncident_def Let_def getDeletedIncidents_def)

lemma deleteIncident_absent:
  assumes "i \<notin> set (incidents s)" and "i \<in> set (deleted_incidents s)"
  shows "deleteIncident i s = (False, s)"
proof -
  have "filter (\<lambda>value. value \<noteq> i) (incidents s) = incidents s"
    using assms(1) by (auto simp: filter_id_conv)
  then show ?thesis using assms(2) by (simp add: deleteIncident_def Let_def getDeletedIncidents_def)
qed

lemma revised_id [simp]: "incident_id (revised sender incident) = incident_id incident"
  by (simp add: revised_def split: option.splits)

lemma handleEditIncident_eq:
  assumes "content request = Some incident"
  shows "handleEditIncident request s =
    (if incident_id incident \<in> set (deleted_incidents s)
     then (failure ''bad_request'' ''That incident has been deleted.'', s)
     else if stale s incident
     then (failure ''bad_request'' ''The incident has been edited more recently.'', s)
     else (case stored s (incident_id incident) of
             None \<Rightarrow> (failure ''bad_request'' ''Could not edit incident with that ID'', s)
           | Some current \<Rightarrow>
               (success (revision_data (revision (revised (request_sender request s) incident))),
                broadcast (update_incident (revised (request_sender request s) incident)) (request_sender request s)
                  (s\<lparr>stored := (stored s)(incident_id incident \<mapsto> revised (request_sender request s) incident)\<rparr>))))"
  using assms
  by (auto simp: handleEditIncident_def getDeletedIncidents_def stale_def currentRevision_def
      revised_def first_revision_def editIncident_def Let_def split: option.splits)

subsection \<open>Adding a tombstoned incident (C4)\<close>



subsection \<open>Stale edits (C5)\<close>

text \<open>
  C5 as stated fails on the reason: a \<^verbatim>\<open>PATCH\<close> with revision count 2 against the stored
  count 3 is answered with the reason \<^verbatim>\<open>bad_request\<close>, not \<^verbatim>\<open>stale\<close>.
\<close>

theorem stale_patch_counterexample:
  "fst (handleEditIncident (request_a (Some (report (Some (revision_n 2)))) None) live_state) =
     failure ''bad_request'' ''The incident has been edited more recently.''"
  by (simp add: handleEditIncident_eq request_a_def report_def live_state_def initial_state_def
      stale_def currentRevision_def getIncident_def revision_n_def)

text \<open>
  C5 (amended): a \<^verbatim>\<open>PATCH /incident\<close> whose body carries a revision with a count below the
  stored incident's revision count is answered with the failure \<^verbatim>\<open>bad_request\<close> (details
  \<^verbatim>\<open>The incident has been edited more recently.\<close>, or \<^verbatim>\<open>That incident has been deleted.\<close>
  for a tombstoned id) and leaves the state unchanged; every other \<^verbatim>\<open>PATCH\<close> with a body for
  a stored, non-tombstoned id succeeds, stores the incident (with the revision it is given
  when it has none) and sends \<^verbatim>\<open>update_incident\<close> to every client whose socket takes it.
\<close>

theorem handleEditIncident_revisions:
  assumes "content request = Some incident"
  shows "(stale s incident \<longrightarrow>
            handleEditIncident request s =
              (failure ''bad_request''
                 (if incident_id incident \<in> set (deleted_incidents s)
                  then ''That incident has been deleted.''
                  else ''The incident has been edited more recently.''), s)) \<and>
         (\<not> stale s incident \<and> stored s (incident_id incident) \<noteq> None \<and>
          incident_id incident \<notin> set (deleted_incidents s) \<longrightarrow>
            (let sender = request_sender request s;
                 incident' = revised sender incident;
                 s' = snd (handleEditIncident request s)
             in fst (handleEditIncident request s) = success (revision_data (revision incident')) \<and>
                stored s' = (stored s)(incident_id incident \<mapsto> incident') \<and>
                outbox s' = outbox s @
                  map (\<lambda>c. (socket c, Payload (update_incident incident') sender)) (working s) @
                  leave_notices s))"
  by (auto simp: handleEditIncident_eq[OF assms] Let_def broadcast_outbox)

text \<open>Witness for C5 (amended): revision counts 2 and 3 against the stored count 3.\<close>

theorem handleEditIncident_revisions_witness:
  "content (request_a (Some (report (Some (revision_n 2)))) None) = Some (report (Some (revision_n 2))) \<and>
   stale live_state (report (Some (revision_n 2))) \<and>
   handleEditIncident (request_a (Some (report (Some (revision_n 2)))) None) live_state =
     (failure ''bad_request'' ''The incident has been edited more recently.'', live_state) \<and>
   content (request_a (Some (report (Some (revision_n 3)))) None) = Some (report (Some (revision_n 3))) \<and>
   \<not> stale live_state (report (Some (revision_n 3))) \<and>
   stored live_state ''incident1'' \<noteq> None \<and> ''incident1'' \<notin> set (deleted_incidents live_state) \<and>
   fst (handleEditIncident (request_a (Some (report (Some (revision_n 3)))) None) live_state) =
     success (revision_data (Some (revision_n 3))) \<and>
   outbox (snd (handleEditIncident (request_a (Some (report (Some (revision_n 3)))) None) live_state)) =
     [(1, Payload (update_incident (report (Some (revision_n 3)))) (ClientSender ''Ada'' ''KEY-A'')),
      (2, Payload (update_incident (report (Some (revision_n 3)))) (ClientSender ''Ada'' ''KEY-A''))]"
proof -
  let ?old = "report (Some (revision_n 2))" and ?new = "report (Some (revision_n 3))"
  have c2: "content (request_a (Some ?old) None) = Some ?old" by (simp add: request_a_def)
  have c3: "content (request_a (Some ?new) None) = Some ?new" by (simp add: request_a_def)
  have i: "incident_id (report r) = ''incident1''" for r by (simp add: report_def)
  have st2: "stale live_state ?old"
    by (simp add: stale_def currentRevision_def getIncident_def live_state_def initial_state_def
        report_def revision_n_def)
  have st3: "\<not> stale live_state ?new"
    by (simp add: stale_def currentRevision_def getIncident_def live_state_def initial_state_def
        report_def revision_n_def)
  have ex: "stored live_state ''incident1'' \<noteq> None" "''incident1'' \<notin> set (deleted_incidents live_state)"
    by (simp_all add: live_state_def initial_state_def)
  have w: "working live_state = [session_a, session_b]"
    by (simp add: working_def live_state_def initial_state_def)
  have n: "leave_notices live_state = []"
    by (simp add: leave_notices_def live_state_def initial_state_def)
  have o: "outbox live_state = []" by (simp add: live_state_def initial_state_def)
  have snd: "request_sender (request_a (Some ?new) None) live_state = ClientSender ''Ada'' ''KEY-A''"
    by (simp add: request_sender_def getRequestUser_def request_a_def live_state_def initial_state_def
        session_a_def referee_a_def)
  have r: "revised (ClientSender ''Ada'' ''KEY-A'') ?new = ?new"
    by (simp add: revised_def report_def)
  from handleEditIncident_revisions[OF c2, of live_state] st2 ex
  have one: "handleEditIncident (request_a (Some ?old) None) live_state =
     (failure ''bad_request'' ''The incident has been edited more recently.'', live_state)"
    by (simp add: i)
  from handleEditIncident_revisions[OF c3, of live_state] st3 ex
  have two: "fst (handleEditIncident (request_a (Some ?new) None) live_state) =
     success (revision_data (Some (revision_n 3)))"
    "outbox (snd (handleEditIncident (request_a (Some ?new) None) live_state)) =
     [(1, Payload (update_incident ?new) (ClientSender ''Ada'' ''KEY-A'')),
      (2, Payload (update_incident ?new) (ClientSender ''Ada'' ''KEY-A''))]"
    by (simp_all add: i Let_def snd r w n o session_a_def session_b_def) (simp add: report_def)
  show ?thesis using c2 c3 st2 st3 ex one two by simp
qed

subsection \<open>An edit without a revision (C9)\<close>

text \<open>
  C9: a \<^verbatim>\<open>PATCH /incident\<close> whose body has no revision, for an id that is stored and not in
  the deleted set, succeeds whatever the stored revision count is: the incident is given
  the revision \<^verbatim>\<open>{count: 1, user: sender, history: []}\<close>, replaces the stored incident and
  is broadcast as \<^verbatim>\<open>update_incident\<close>.
\<close>

theorem patch_without_revision:
  assumes "content request = Some incident"
    and "revision incident = None"
    and "stored s (incident_id incident) = Some current"
    and "incident_id incident \<notin> set (deleted_incidents s)"
  shows "handleEditIncident request s =
           (success (revision_data (Some \<lparr>rev_count = 1, rev_user = request_sender request s, rev_history = []\<rparr>)),
            broadcast
              (update_incident (incident\<lparr>revision :=
                 Some \<lparr>rev_count = 1, rev_user = request_sender request s, rev_history = []\<rparr>\<rparr>))
              (request_sender request s)
              (s\<lparr>stored := (stored s)(incident_id incident \<mapsto>
                   incident\<lparr>revision :=
                     Some \<lparr>rev_count = 1, rev_user = request_sender request s, rev_history = []\<rparr>\<rparr>)\<rparr>)) \<and>
         stored (snd (handleEditIncident request s)) (incident_id incident) =
           Some (incident\<lparr>revision :=
                   Some \<lparr>rev_count = 1, rev_user = request_sender request s, rev_history = []\<rparr>\<rparr>)"
  using assms(2-4)
  by (simp add: handleEditIncident_eq[OF assms(1)] stale_def revised_def first_revision_def)

text \<open>Witness for C9: the stored report has revision count 3.\<close>

theorem patch_without_revision_witness:
  "content (request_a (Some (report None)) None) = Some (report None) \<and>
   revision (report None) = None \<and>
   stored live_state (incident_id (report None)) = Some (report (Some (revision_n 3))) \<and>
   incident_id (report None) \<notin> set (deleted_incidents live_state) \<and>
   fst (handleEditIncident (request_a (Some (report None)) None) live_state) =
     success (revision_data (Some \<lparr>rev_count = 1, rev_user = ClientSender ''Ada'' ''KEY-A'', rev_history = []\<rparr>)) \<and>
   stored (snd (handleEditIncident (request_a (Some (report None)) None) live_state)) ''incident1'' =
     Some (report (Some \<lparr>rev_count = 1, rev_user = ClientSender ''Ada'' ''KEY-A'', rev_history = []\<rparr>))"
proof -
  have c: "content (request_a (Some (report None)) None) = Some (report None)" by (simp add: request_a_def)
  have r: "revision (report None) = None" by (simp add: report_def)
  have i: "incident_id (report r) = ''incident1''" for r by (simp add: report_def)
  have e: "stored live_state (incident_id (report None)) = Some (report (Some (revision_n 3)))"
    by (simp add: i live_state_def initial_state_def)
  have d: "incident_id (report None) \<notin> set (deleted_incidents live_state)"
    by (simp add: live_state_def initial_state_def)
  have snd: "request_sender (request_a (Some (report None)) None) live_state = ClientSender ''Ada'' ''KEY-A''"
    by (simp add: request_sender_def getRequestUser_def request_a_def live_state_def initial_state_def
        session_a_def referee_a_def)
  have u: "(report None)\<lparr>revision := Some x\<rparr> = report (Some x)" for x by (simp add: report_def)
  show ?thesis
    using patch_without_revision[OF c r e d] c r e d
    by (simp add: snd u i)
qed

subsection \<open>Deleting twice (C6)\<close>

text \<open>
  C6 as stated fails: the first \<^verbatim>\<open>DELETE /incident?id=incident1\<close> succeeds, the second is
  answered with a failure.
\<close>

theorem second_delete_counterexample:
  "fst (handleDeleteIncident (request_a None (Some ''incident1'')) live_state) = success empty_data \<and>
   fst (handleDeleteIncident (request_a None (Some ''incident1''))
          (snd (handleDeleteIncident (request_a None (Some ''incident1'')) live_state))) =
     failure ''bad_request'' ''Could not find incident with that ID''"
  by (simp add: handleDeleteIncident_def request_a_def deleteIncident_def Let_def getDeletedIncidents_def
      live_state_def initial_state_def new_Set_def)

text \<open>
  C6 (amended): after a successful \<^verbatim>\<open>DELETE /incident?id=...\<close>, a second \<^verbatim>\<open>DELETE\<close> for the
  same id is answered with the failure \<^verbatim>\<open>bad_request\<close> (\<^verbatim>\<open>Could not find incident with
  that ID\<close>) and leaves the state as it is: no frame is sent, the id stays in the deleted set
  and off the incident list.
\<close>

theorem second_delete:
  assumes "handleDeleteIncident request s = (success empty_data, s1)"
  shows "handleDeleteIncident request s1 =
           (failure ''bad_request'' ''Could not find incident with that ID'', s1) \<and>
         (\<exists>i. id_param request = Some i \<and> i \<in> set (deleted_incidents s1) \<and> i \<notin> set (incidents s1))"
proof -
  from assms obtain i where i: "id_param request = Some i" "i \<noteq> []"
    by (auto simp: handleDeleteIncident_def Let_def split: option.splits if_splits prod.splits)
  with assms have s1: "s1 = broadcast (remove_incident i) (request_sender request s) (snd (deleteIncident i s))"
    by (auto simp: handleDeleteIncident_def Let_def split: prod.splits if_splits)
  have a: "i \<notin> set (incidents s1)" by (simp add: s1 deleteIncident_fields)
  have d: "i \<in> set (deleted_incidents s1)" by (simp add: s1 deleteIncident_fields)
  show ?thesis using i a d by (simp add: handleDeleteIncident_def deleteIncident_absent[OF a d])
qed

text \<open>Witness for C6 (amended): the stored report is deleted twice.\<close>

theorem second_delete_witness:
  "handleDeleteIncident (request_a None (Some ''incident1'')) live_state =
     (success empty_data, snd (handleDeleteIncident (request_a None (Some ''incident1'')) live_state)) \<and>
   handleDeleteIncident (request_a None (Some ''incident1''))
       (snd (handleDeleteIncident (request_a None (Some ''incident1'')) live_state)) =
     (failure ''bad_request'' ''Could not find incident with that ID'',
      snd (handleDeleteIncident (request_a None (Some ''incident1'')) live_state)) \<and>
   deleted_incidents (snd (handleDeleteIncident (request_a None (Some ''incident1'')) live_state)) = [''incident1''] \<and>
   incidents (snd (handleDeleteIncident (request_a None (Some ''incident1'')) live_state)) = []"
proof -
  let ?r = "request_a None (Some ''incident1'')"
  have f: "fst (handleDeleteIncident ?r live_state) = success empty_data"
    by (simp add: handleDeleteIncident_def request_a_def deleteIncident_def Let_def getDeletedIncidents_def
      live_state_def initial_state_def new_Set_def)
  then have first: "handleDeleteIncident ?r live_state = (success empty_data, snd (handleDeleteIncident ?r live_state))"
    by (metis prod.collapse)
  have st: "deleted_incidents (snd (handleDeleteIncident ?r live_state)) = [''incident1'']"
     "incidents (snd (handleDeleteIncident ?r live_state)) = []"
    by (simp_all add: handleDeleteIncident_def request_a_def deleteIncident_def Let_def getDeletedIncidents_def
      live_state_def initial_state_def new_Set_def)
  show ?thesis using second_delete[OF first] first st by simp
qed

subsection \<open>One session per peer (C7)\<close>

lemma handleSession_clients:
  "clients (snd (handleSession sock ip_addr usr s)) =
     filter (\<lambda>c. socket c \<notin> set (broken s))
       (filter (\<lambda>c. user_id (user c) \<noteq> user_id usr) (clients s) @ [\<lparr>user = usr, socket = sock, ip = ip_addr\<rparr>])"
  by (simp add: handleSession_def Let_def socket_send_def working_def split: option.splits)

lemma handleSession_snapshot:
  assumes "fst (handleSession sock ip_addr usr s) = None"
  shows "outbox (snd (handleSession sock ip_addr usr s)) \<noteq> [] \<and>
         last (outbox (snd (handleSession sock ip_addr usr s))) =
           (sock, Payload (server_share_info (getActiveUsers (snd (handleSession sock ip_addr usr s)))
                     (invitation_list s) (getData (snd (handleSession sock ip_addr usr s)))
                     (getAllScratchpads (snd (handleSession sock ip_addr usr s)))) ServerSender)"
proof -
  have g: "getActiveUsers (st\<lparr>outbox := ob\<rparr>) = getActiveUsers st"
          "getData (st\<lparr>outbox := ob\<rparr>) = getData st"
          "getAllScratchpads (st\<lparr>outbox := ob\<rparr>) = getAllScratchpads st" for st ob
    by (simp_all add: getActiveUsers_def active_def[abs_def] getData_def getAllIncidents_def
        getIncidentList_def getDeletedIncidents_def getAllScratchpads_def getSKU_def)
  show ?thesis
    using assms
    by (auto simp: handleSession_def Let_def socket_send_def createPayload_def getInvitationList_def g
        split: if_splits)
qed

lemma clients_handleAddIncident:
  "\<exists>P. clients (snd (handleAddIncident request s)) = filter P (clients s)"
proof (cases "clients (snd (handleAddIncident request s)) = clients s")
  case True
  then show ?thesis by (auto intro: exI[of _ "\<lambda>_. True"])
next
  case False
  then have "clients (snd (handleAddIncident request s)) = working s"
    by (auto simp: handleAddIncident_def Let_def working_def split: option.splits if_splits)
  then show ?thesis by (auto simp: working_def)
qed

lemma clients_handleEditIncident:
  "\<exists>P. clients (snd (handleEditIncident request s)) = filter P (clients s)"
proof (cases "clients (snd (handleEditIncident request s)) = clients s")
  case True
  then show ?thesis by (auto intro: exI[of _ "\<lambda>_. True"])
next
  case False
  then have "clients (snd (handleEditIncident request s)) = working s"
    by (auto simp: handleEditIncident_def editIncident_def Let_def working_def split: option.splits if_splits prod.splits)
  then show ?thesis by (auto simp: working_def)
qed

lemma clients_handleDeleteIncident:
  "\<exists>P. clients (snd (handleDeleteIncident request s)) = filter P (clients s)"
proof (cases "clients (snd (handleDeleteIncident request s)) = clients s")
  case True
  then show ?thesis by (auto intro: exI[of _ "\<lambda>_. True"])
next
  case False
  then have "clients (snd (handleDeleteIncident request s)) = working s"
    by (auto simp: handleDeleteIncident_def Let_def working_def case_prod_beta split: option.splits if_splits)
  then show ?thesis by (auto simp: working_def)
qed

lemma clients_onMessage:
  "\<exists>P. clients (onMessage client data s) = filter P (clients s)"
proof (cases "clients (onMessage client data s) = clients s")
  case True
  then show ?thesis by (auto intro: exI[of _ "\<lambda>_. True"])
next
  case False
  then have "clients (onMessage client data s) = working s"
    by (auto simp: onMessage_def socket_send_def working_def split: option.splits if_splits WebSocketMessage.splits)
  then show ?thesis by (auto simp: working_def)
qed

lemma clients_quitHandler:
  "\<exists>P. clients (quitHandler client s) = filter P (clients s)"
  by (auto simp: quitHandler_def Let_def working_def intro: exI[of _ "\<lambda>c. socket c \<notin> set (broken s) \<and> socket c \<noteq> socket client"])

lemma distinct_join:
  assumes "distinct (map (user_id \<circ> user) cs)"
  shows "distinct (map (user_id \<circ> user)
           (filter P (filter (\<lambda>c. user_id (user c) \<noteq> user_id usr) cs @ [\<lparr>user = usr, socket = sock, ip = ip_addr\<rparr>])))"
proof -
  have "distinct (map (user_id \<circ> user) (filter (\<lambda>c. user_id (user c) \<noteq> user_id usr) cs @ [\<lparr>user = usr, socket = sock, ip = ip_addr\<rparr>]))"
    using assms by (auto simp: distinct_map_filter)
  then show ?thesis by (rule distinct_map_filter)
qed

lemma clients_handleWebsocket:
  "clients (handleWebsocket upgrade ip_header name_param id_param' sock s) = clients s \<or>
   (\<exists>ip_addr usr. clients (handleWebsocket upgrade ip_header name_param id_param' sock s) =
      clients (snd (handleSession sock ip_addr usr s)))"
proof -
  have e: "clients (case socket_send sock ErrorFrame s of
                      None \<Rightarrow> s
                    | Some s' \<Rightarrow> s'\<lparr>closed := closed s' @ [sock]\<rparr>) = clients s"
    by (simp add: socket_send_def)
  show ?thesis
    unfolding handleWebsocket_def Let_def
    by (cases name_param; cases id_param'; cases upgrade) (auto simp: e)
qed

text \<open>In every state the server can reach, the clients list holds one session per peer
  id.\<close>

lemma reachable_one_session_per_peer:
  "reachable s \<Longrightarrow> distinct (map (user_id \<circ> user) (clients s))"
proof (induction rule: reachable.induct)
  case start
  then show ?case by (simp add: initial_state_def)
next
  case (environment s b il)
  then show ?case by simp
next
  case (evicted s)
  then show ?case by simp
next
  case (initialised s secret data_sku')
  then show ?case by (simp add: init_def setSKU_def setInstanceSecret_def)
next
  case (alarm s)
  then show ?case by (simp add: destroy_def)
next
  case (websocket_request s upgrade ip_header name_param id_param' sock)
  from clients_handleWebsocket[of upgrade ip_header name_param id_param' sock s]
  show ?case
  proof
    assume "clients (handleWebsocket upgrade ip_header name_param id_param' sock s) = clients s"
    with websocket_request.IH show ?thesis by simp
  next
    assume "\<exists>ip_addr usr. clients (handleWebsocket upgrade ip_header name_param id_param' sock s) =
      clients (snd (handleSession sock ip_addr usr s))"
    then obtain ip_addr usr where
      "clients (handleWebsocket upgrade ip_header name_param id_param' sock s) =
         clients (snd (handleSession sock ip_addr usr s))" by blast
    with websocket_request.IH show ?thesis by (simp only: handleSession_clients distinct_join)
  qed
next
  case (put_incident s request)
  then show ?case using clients_handleAddIncident[of request s] by (auto simp: distinct_map_filter)
next
  case (patch_incident s request)
  then show ?case using clients_handleEditIncident[of request s] by (auto simp: distinct_map_filter)
next
  case (delete_incident s request)
  then show ?case using clients_handleDeleteIncident[of request s] by (auto simp: distinct_map_filter)
next
  case (join s sock ip_addr usr)
  then show ?case by (simp only: handleSession_clients distinct_join)
next
  case (frame s client data)
  then show ?case using clients_onMessage[of client data s] by (auto simp: distinct_map_filter)
next
  case (quit s client)
  then show ?case using clients_quitHandler[of client s] by (auto simp: distinct_map_filter)
qed

text \<open>
  C7: when a peer opens a session, the only session the clients list can hold afterwards
  under the id of the joining peer is the new one: the sessions registered before under
  that id are gone. If the list held at most one session per peer id before (as it does in
  every state the server can reach), it does so after the join. The active users of the
  snapshot \<^verbatim>\<open>server_share_info\<close> are read from that list after the eviction, one per peer
  id, and the snapshot, when the new socket takes it, is the last frame sent.
\<close>

theorem handleSession_dedupe:
  shows "(\<forall>c \<in> set (clients (snd (handleSession sock ip_addr usr s))).
            user_id (user c) = user_id usr \<longrightarrow> c = \<lparr>user = usr, socket = sock, ip = ip_addr\<rparr>) \<and>
         (distinct (map (user_id \<circ> user) (clients s)) \<longrightarrow>
            distinct (map (user_id \<circ> user) (clients (snd (handleSession sock ip_addr usr s)))) \<and>
            distinct (map user_id (getActiveUsers (snd (handleSession sock ip_addr usr s))))) \<and>
         (fst (handleSession sock ip_addr usr s) = None \<longrightarrow>
            last (outbox (snd (handleSession sock ip_addr usr s))) =
              (sock, Payload (server_share_info (getActiveUsers (snd (handleSession sock ip_addr usr s)))
                        (invitation_list s) (getData (snd (handleSession sock ip_addr usr s)))
                        (getAllScratchpads (snd (handleSession sock ip_addr usr s)))) ServerSender))"
proof -
  let ?s' = "snd (handleSession sock ip_addr usr s)"
  have e: "\<forall>c \<in> set (clients ?s'). user_id (user c) = user_id usr \<longrightarrow> c = \<lparr>user = usr, socket = sock, ip = ip_addr\<rparr>"
    by (auto simp: handleSession_clients)
  have d: "distinct (map (user_id \<circ> user) (clients ?s'))"
    if "distinct (map (user_id \<circ> user) (clients s))"
    using that by (simp only: handleSession_clients distinct_join)
  have a: "distinct (map user_id (getActiveUsers ?s'))"
    if "distinct (map (user_id \<circ> user) (clients s))"
  proof -
    have "distinct (map (user_id \<circ> user) (filter (active ?s') (clients ?s')))"
      using d[OF that] by (rule distinct_map_filter)
    then show ?thesis by (simp add: getActiveUsers_def)
  qed
  show ?thesis using d e a handleSession_snapshot[of sock ip_addr usr s] by blast
qed

text \<open>Witness for C7: the first referee joins on socket 1 and then again on socket 3.\<close>

theorem handleSession_dedupe_witness:
  "reachable joined_state \<and>
   clients joined_state = [session_a] \<and>
   distinct (map (user_id \<circ> user) (clients joined_state)) \<and>
   clients (snd (handleSession 3 ''10.0.0.9'' referee_a joined_state)) =
     [\<lparr>user = referee_a, socket = 3, ip = ''10.0.0.9''\<rparr>] \<and>
   getActiveUsers (snd (handleSession 3 ''10.0.0.9'' referee_a joined_state)) = [referee_a] \<and>
   fst (handleSession 3 ''10.0.0.9'' referee_a joined_state) = None \<and>
   fst (last (outbox (snd (handleSession 3 ''10.0.0.9'' referee_a joined_state)))) = 3"
proof -
  have r: "reachable joined_state"
    unfolding joined_state_def by (rule reachable.join[OF reachable.start])
  have c0: "clients joined_state = [session_a]"
    by (simp add: joined_state_def handleSession_clients initial_state_def session_a_def)
  have d0: "distinct (map (user_id \<circ> user) (clients joined_state))"
    by (simp add: c0)
  have b0: "broken joined_state = []" "inactive joined_state = []"
    by (simp_all add: joined_state_def handleSession_def Let_def socket_send_def initial_state_def broadcast_eq)
  have c1: "clients (snd (handleSession 3 ''10.0.0.9'' referee_a joined_state)) =
     [\<lparr>user = referee_a, socket = 3, ip = ''10.0.0.9''\<rparr>]"
    by (simp add: handleSession_clients c0 b0 session_a_def)
  have ok: "fst (handleSession 3 ''10.0.0.9'' referee_a joined_state) = None"
    by (simp add: handleSession_def Let_def socket_send_def b0)
  have i1: "inactive (snd (handleSession 3 ''10.0.0.9'' referee_a joined_state)) = []"
    by (simp add: handleSession_def Let_def socket_send_def b0 c0 broadcast_eq session_a_def)
  have au: "getActiveUsers (snd (handleSession 3 ''10.0.0.9'' referee_a joined_state)) = [referee_a]"
    by (simp add: getActiveUsers_def c1 active_def i1)
  show ?thesis
    using handleSession_dedupe[of 3 "''10.0.0.9''" referee_a joined_state] r c0 d0 c1 ok au
    by simp
qed

section \<open>Properties of the CSV export (C8)\<close>

text \<open>The list of ids keeps the order in which the incidents came; the bulk read hands
  the incidents over by ascending id.\<close>

lemma getAllIncidents_order:
  "getIncidentList (addIncident (report None) (addIncident undated_report initial_state)) =
     [''incident2'', ''incident1''] \<and>
   map incident_id (getAllIncidents (addIncident (report None) (addIncident undated_report initial_state))) =
     [''incident1'', ''incident2'']"
  by code_simp









section \<open>Properties of the client edits (C10)\<close>

lemma scratchpad_changes_set:
  "ch \<in> set (scratchpad_changes pf current patch) \<longleftrightarrow>
     (\<exists>v. (property ch, v) \<in> set patch \<and>
          property ch \<notin> set [''event'', ''match'', ''revision'', ''game''] \<and>
          old ch = v \<and> new ch = js_prop (properties current) (property ch) \<and>
          differs pf v (js_prop (properties current) (property ch)))"
  unfolding scratchpad_changes_def
  by (induction patch) (auto simp: List.map_filter_simps Let_def split: if_splits)

lemma incident_changes_aux:
  "ch \<in> set (List.map_filter
       (\<lambda>(key, currentValue).
          if key = ''revision'' \<or> key = ''team'' \<or> key = ''event'' then None
          else
            (let newValue = js_prop incident key
             in if differs pf currentValue newValue
                then Some \<lparr>property = key, old = currentValue, new = newValue\<rparr>
                else None)) ps) \<longleftrightarrow>
     (\<exists>v. (property ch, v) \<in> set ps \<and>
          property ch \<notin> set [''revision'', ''team'', ''event''] \<and>
          old ch = v \<and> new ch = js_prop incident (property ch) \<and>
          differs pf v (js_prop incident (property ch)))"
  by (induction ps) (auto simp: List.map_filter_simps Let_def split: if_splits)

lemma incident_changes_set:
  "ch \<in> set (incident_changes pf current incident) \<longleftrightarrow>
     (\<exists>v. (property ch, v) \<in> set (properties current) \<and>
          property ch \<notin> set [''revision'', ''team'', ''event''] \<and>
          old ch = v \<and> new ch = js_prop incident (property ch) \<and>
          differs pf v (js_prop incident (property ch)))"
  unfolding incident_changes_def by (rule incident_changes_aux)

lemma client_editIncident_entry:
  assumes "client_getIncident pf j st = Some stored_incident"
  shows "\<exists>value rev entry.
           documents (client_editIncident pf sender now j incident_patch updateRemote st) j = Some value \<and>
           doc_revision value = Some rev \<and>
           rev_history rev =
             (case doc_revision stored_incident of None \<Rightarrow> [] | Some r \<Rightarrow> rev_history r) @ [entry] \<and>
           changes entry = incident_changes pf stored_incident incident_patch"
  using assms
  by (simp add: client_editIncident_def Let_def split: option.splits)

text \<open>
  C10: when \<^verbatim>\<open>editScratchpad(id, patch)\<close> finds the scratchpad stored and some property of
  the patch, other than \<^verbatim>\<open>event\<close>, \<^verbatim>\<open>match\<close>, \<^verbatim>\<open>revision\<close> and \<^verbatim>\<open>game\<close>, differs from
  the stored one, it stores the scratchpad with one more history entry, whose changes are
  not empty and each have as \<^verbatim>\<open>old\<close> the value of the patch and as \<^verbatim>\<open>new\<close> the value stored
  before. The incident path is the other way round: every change that \<^verbatim>\<open>editIncident\<close>
  appends has as \<^verbatim>\<open>old\<close> the stored value and as \<^verbatim>\<open>new\<close> the value of the patch.
\<close>

theorem editScratchpad_change_direction:
  assumes "getMatchScratchpad i st = Some current"
    and "\<exists>(k, v) \<in> set patch. k \<notin> set [''event'', ''match'', ''revision'', ''game''] \<and>
           differs pf v (js_prop (properties current) k)"
  shows "(\<exists>value rev entry.
           documents (editScratchpad pf sender now i patch st) i = Some value \<and>
           doc_revision value = Some rev \<and>
           rev_history rev =
             (case doc_revision current of None \<Rightarrow> [] | Some r \<Rightarrow> rev_history r) @ [entry] \<and>
           changes entry \<noteq> [] \<and>
           (\<forall>ch \<in> set (changes entry).
              (property ch, old ch) \<in> set patch \<and>
              new ch = js_prop (properties current) (property ch))) \<and>
         (\<forall>j st' stored_incident incident_patch updateRemote.
            client_getIncident pf j st' = Some stored_incident \<longrightarrow>
            (\<exists>value rev entry.
               documents (client_editIncident pf sender now j incident_patch updateRemote st') j = Some value \<and>
               doc_revision value = Some rev \<and>
               rev_history rev =
                 (case doc_revision stored_incident of None \<Rightarrow> [] | Some r \<Rightarrow> rev_history r) @ [entry] \<and>
               (\<forall>ch \<in> set (changes entry).
                  (property ch, old ch) \<in> set (properties stored_incident) \<and>
                  new ch = js_prop incident_patch (property ch))))"
proof -
  from assms(2) obtain k v where kv: "(k, v) \<in> set patch"
    "k \<notin> set [''event'', ''match'', ''revision'', ''game'']"
    "differs pf v (js_prop (properties current) k)" by auto
  have "\<lparr>property = k, old = v, new = js_prop (properties current) k\<rparr>
          \<in> set (scratchpad_changes pf current patch)"
    using kv by (subst scratchpad_changes_set) simp
  then have ne: "scratchpad_changes pf current patch \<noteq> []" by auto
  then have len: "\<not> length (scratchpad_changes pf current patch) < 1"
    by (cases "scratchpad_changes pf current patch") auto
  have dir: "\<forall>ch \<in> set (scratchpad_changes pf current patch).
              (property ch, old ch) \<in> set patch \<and>
              new ch = js_prop (properties current) (property ch)"
    by (auto simp: scratchpad_changes_set)
  have pad: "\<exists>value rev entry.
           documents (editScratchpad pf sender now i patch st) i = Some value \<and>
           doc_revision value = Some rev \<and>
           rev_history rev =
             (case doc_revision current of None \<Rightarrow> [] | Some r \<Rightarrow> rev_history r) @ [entry] \<and>
           changes entry \<noteq> [] \<and>
           (\<forall>ch \<in> set (changes entry).
              (property ch, old ch) \<in> set patch \<and>
              new ch = js_prop (properties current) (property ch))"
    using assms(1) len ne dir
    by (simp add: editScratchpad_def Let_def setMatchScratchpad_def updateScratchpad_def
        split: option.splits)
  have inc: "\<exists>value rev entry.
               documents (client_editIncident pf sender now j incident_patch updateRemote st') j = Some value \<and>
               doc_revision value = Some rev \<and>
               rev_history rev =
                 (case doc_revision stored_incident of None \<Rightarrow> [] | Some r \<Rightarrow> rev_history r) @ [entry] \<and>
               (\<forall>ch \<in> set (changes entry).
                  (property ch, old ch) \<in> set (properties stored_incident) \<and>
                  new ch = js_prop incident_patch (property ch))"
    if "client_getIncident pf j st' = Some stored_incident"
    for j st' stored_incident incident_patch updateRemote
  proof -
    from client_editIncident_entry[OF that, of sender now incident_patch updateRemote]
    obtain doc rev entry where e:
      "documents (client_editIncident pf sender now j incident_patch updateRemote st') j = Some doc"
      "doc_revision doc = Some rev"
      "rev_history rev =
         (case doc_revision stored_incident of None \<Rightarrow> [] | Some r \<Rightarrow> rev_history r) @ [entry]"
      "changes entry = incident_changes pf stored_incident incident_patch"
      by blast
    have "\<forall>ch \<in> set (changes entry).
            (property ch, old ch) \<in> set (properties stored_incident) \<and>
            new ch = js_prop incident_patch (property ch)"
      by (auto simp: e(4) incident_changes_set)
    with e show ?thesis by blast
  qed
  show ?thesis using pad inc by blast
qed

text \<open>Witness for C10: the notes of a scratchpad are patched; the same objects run
  through the loop of the incident path give the opposite direction.\<close>

theorem editScratchpad_change_direction_witness:
  "getMatchScratchpad ''scratchpad_RE-VRC-23-3690_1_Q1'' pad_store = Some pad \<and>
   differs string_platform (Some ''late start'') (js_prop (properties pad) ''notes'') \<and>
   map_option doc_revision
     (documents (editScratchpad string_platform (ClientSender ''Ada'' ''KEY-A'') ''2024-03-01''
        ''scratchpad_RE-VRC-23-3690_1_Q1'' pad_patch pad_store) ''scratchpad_RE-VRC-23-3690_1_Q1'') =
     Some (Some \<lparr>rev_count = 1, rev_user = ServerSender,
        rev_history = [\<lparr>entry_user = ClientSender ''Ada'' ''KEY-A'', entry_date = ''2024-03-01'',
                        changes = [\<lparr>property = ''notes'', old = Some ''late start'', new = Some []\<rparr>]\<rparr>]\<rparr>) \<and>
   client_getIncident string_platform ''scratchpad_RE-VRC-23-3690_1_Q1'' pad_store =
     Some (pad\<lparr>properties := properties pad @ [(''id'', Some ''scratchpad_RE-VRC-23-3690_1_Q1'')]\<rparr>) \<and>
   incident_changes string_platform pad pad_patch =
     [\<lparr>property = ''game'', old = Some ''High Stakes'', new = None\<rparr>,
      \<lparr>property = ''notes'', old = Some [], new = Some ''late start''\<rparr>]"
proof -
  have ci: "client_getIncident string_platform ''scratchpad_RE-VRC-23-3690_1_Q1'' pad_store =
     Some (pad\<lparr>properties := properties pad @ [(''id'', Some ''scratchpad_RE-VRC-23-3690_1_Q1'')]\<rparr>)"
    by (simp add: client_getIncident_def pad_store_def js_assign_def string_platform_def)
       (simp add: pad_def)
  have g: "getMatchScratchpad ''scratchpad_RE-VRC-23-3690_1_Q1'' pad_store = Some pad"
    by (simp add: getMatchScratchpad_def pad_store_def)
  have d: "differs string_platform (Some ''late start'') (js_prop (properties pad) ''notes'')"
    by (simp add: differs_def string_platform_def js_prop_def js_get_def pad_def)
  have h: "\<exists>(k, v) \<in> set pad_patch. k \<notin> set [''event'', ''match'', ''revision'', ''game''] \<and>
           differs string_platform v (js_prop (properties pad) k)"
    using d by (simp add: pad_patch_def)
  have c: "scratchpad_changes string_platform pad pad_patch =
      [\<lparr>property = ''notes'', old = Some ''late start'', new = Some []\<rparr>]"
    by (simp add: scratchpad_changes_def pad_patch_def List.map_filter_simps differs_def
        string_platform_def js_prop_def js_get_def pad_def)
  have e: "map_option doc_revision
     (documents (editScratchpad string_platform (ClientSender ''Ada'' ''KEY-A'') ''2024-03-01''
        ''scratchpad_RE-VRC-23-3690_1_Q1'' pad_patch pad_store) ''scratchpad_RE-VRC-23-3690_1_Q1'') =
     Some (Some \<lparr>rev_count = 1, rev_user = ServerSender,
        rev_history = [\<lparr>entry_user = ClientSender ''Ada'' ''KEY-A'', entry_date = ''2024-03-01'',
                        changes = [\<lparr>property = ''notes'', old = Some ''late start'', new = Some []\<rparr>]\<rparr>]\<rparr>)"
    by (simp add: editScratchpad_def g c Let_def setMatchScratchpad_def updateScratchpad_def)
       (simp add: pad_def)
  have i: "incident_changes string_platform pad pad_patch =
     [\<lparr>property = ''game'', old = Some ''High Stakes'', new = None\<rparr>,
      \<lparr>property = ''notes'', old = Some [], new = Some ''late start''\<rparr>]"
    by (simp add: incident_changes_def pad_patch_def List.map_filter_simps differs_def
        string_platform_def js_prop_def js_get_def pad_def)
  show ?thesis
    using editScratchpad_change_direction[OF g h] g d e i ci by simp
qed

end
